theory Spec2Isabelle
  imports Main
begin

section \<open>The reel-link pattern and Python's regex matching\<close>

text \<open>
  Python strings are modelled as \<^typ>\<open>string\<close>, the UTF-8 bytes of the text. Every atom of
  the pattern is an ASCII literal, an ASCII class or the class \<^verbatim>\<open>[^ ]\<close>; the bytes of a
  multi-byte code point are all above 127, so they fall into \<^verbatim>\<open>[^ ]\<close> and into no other
  atom, byte by byte exactly as the code point does.

  \<^verbatim>\<open>rx\<close> is the fragment of Python's \<^verbatim>\<open>re\<close> syntax the pattern uses: literals,
  character classes given by inclusive ranges (negated or not), sequencing, the greedy
  quantifiers \<^verbatim>\<open>?\<close> and \<^verbatim>\<open>*\<close> (\<^verbatim>\<open>+\<close> is one copy followed by \<^verbatim>\<open>*\<close>), and the
  capturing group. Non-capturing groups \<^verbatim>\<open>(?:...)\<close> only bracket and have no constructor.
\<close>

datatype rx =
    Lit string
  | Cls bool "(char \<times> char) list"
  | Seq rx rx
  | Opt rx
  | Star rx
  | Grp rx

abbreviation Plus :: "rx \<Rightarrow> rx" where
  "Plus a \<equiv> Seq a (Star a)"

fun seqs :: "rx list \<Rightarrow> rx" where
  "seqs [] = Lit []"
| "seqs [a] = a"
| "seqs (a # b # bs) = Seq a (seqs (b # bs))"

text \<open>
  \<^verbatim>\<open>INSTAGRAM_REEL_PATTERN = re.compile(r'https?://(?:www\.)?instagram\.com/(?:[a-zA-Z0-9._-]+/)?reel/([a-zA-Z0-9_-]+)(?:/\?[^ ]*)?/?')\<close>
\<close>

definition INSTAGRAM_REEL_PATTERN :: rx where
  "INSTAGRAM_REEL_PATTERN = seqs
     [Lit ''http'', Opt (Lit ''s''), Lit ''://'',
      Opt (Lit ''www.''),
      Lit ''instagram.com/'',
      Opt (Seq (Plus (Cls False [(CHR ''a'', CHR ''z''), (CHR ''A'', CHR ''Z''), (CHR ''0'', CHR ''9''),
                                 (CHR ''.'', CHR ''.''), (CHR ''_'', CHR ''_''), (CHR ''-'', CHR ''-'')]))
               (Lit ''/'')),
      Lit ''reel/'',
      Grp (Plus (Cls False [(CHR ''a'', CHR ''z''), (CHR ''A'', CHR ''Z''), (CHR ''0'', CHR ''9''),
                            (CHR ''_'', CHR ''_''), (CHR ''-'', CHR ''-'')])),
      Opt (Seq (Lit ''/?'') (Star (Cls True [(CHR '' '', CHR '' '')]))),
      Opt (Lit ''/'')]"

text \<open>A literal consumes itself from the front of the input, or fails.\<close>

primrec lit :: "string \<Rightarrow> string \<Rightarrow> string option" where
  "lit [] inp = Some inp"
| "lit (c # cs) inp = (case inp of [] \<Rightarrow> None | x # xs \<Rightarrow> if x = c then lit cs xs else None)"

fun in_ranges :: "(char \<times> char) list \<Rightarrow> char \<Rightarrow> bool" where
  "in_ranges [] x = False"
| "in_ranges ((lo, hi) # rs) x =
     (((of_char lo :: nat) \<le> of_char x \<and> (of_char x :: nat) \<le> of_char hi) \<or> in_ranges rs x)"

text \<open>
  The backtracking matcher. \<open>matches r inp c\<close> lists every way \<open>r\<close> can match a prefix of
  \<open>inp\<close>, in the order in which Python's engine tries them: each result is the unconsumed
  rest of the input and the content of group 1 (\<open>c\<close> on entry). A greedy \<^verbatim>\<open>?\<close> tries its
  body before skipping it; a greedy \<^verbatim>\<open>*\<close> tries one more iteration before stopping, and an
  iteration that consumes nothing is not repeated.
\<close>

fun matches :: "rx \<Rightarrow> string \<Rightarrow> string option \<Rightarrow> (string \<times> string option) list" where
  "matches (Lit s) inp c = (case lit s inp of None \<Rightarrow> [] | Some r \<Rightarrow> [(r, c)])"
| "matches (Cls neg rs) inp c =
     (case inp of [] \<Rightarrow> [] | x # xs \<Rightarrow> if in_ranges rs x \<noteq> neg then [(xs, c)] else [])"
| "matches (Seq a b) inp c = concat (map (\<lambda>(r, c'). matches b r c') (matches a inp c))"
| "matches (Opt a) inp c = matches a inp c @ [(inp, c)]"
| "matches (Star a) inp c =
     concat (map (\<lambda>(r, c'). if length r < length inp then matches (Star a) r c' else [])
                 (matches a inp c)) @ [(inp, c)]"
| "matches (Grp a) inp c =
     map (\<lambda>(r, c'). (r, Some (take (length inp - length r) inp))) (matches a inp c)"

text \<open>
  \<^verbatim>\<open>Pattern.match\<close> at the start of \<open>inp\<close>: the first alternative the engine finds.
  \<^verbatim>\<open>Pattern.fullmatch\<close>: the first alternative that consumes the whole input. A match
  object is represented by its rest and its group 1.
\<close>

definition re_match :: "rx \<Rightarrow> string \<Rightarrow> (string \<times> string option) option" where
  "re_match r inp = (case matches r inp None of [] \<Rightarrow> None | m # _ \<Rightarrow> Some m)"

definition fullmatch :: "rx \<Rightarrow> string \<Rightarrow> string option option" where
  "fullmatch r inp =
     (case filter (\<lambda>(rest, c). rest = []) (matches r inp None) of
        [] \<Rightarrow> None
      | (rest, c) # _ \<Rightarrow> Some c)"

definition group1 :: "string option \<Rightarrow> string" where
  "group1 c = (case c of None \<Rightarrow> [] | Some g \<Rightarrow> g)"

text \<open>
  \<^verbatim>\<open>re.findall\<close> for a pattern with one group: scan from the left; where the pattern
  matches, emit group 1 and go on behind the match; elsewhere move on by one character.
  After an empty match the scan moves on by one character (the pattern of this program
  never matches the empty string).
\<close>

function findall :: "rx \<Rightarrow> string \<Rightarrow> string list" where
  "findall r inp =
     (case re_match r inp of
        None \<Rightarrow> (case inp of [] \<Rightarrow> [] | x # xs \<Rightarrow> findall r xs)
      | Some (rest, c) \<Rightarrow>
          group1 c #
            (if length rest < length inp then findall r rest
             else (case inp of [] \<Rightarrow> [] | x # xs \<Rightarrow> findall r xs)))"
  by pat_completeness auto

termination
  by (relation "measure (\<lambda>(r, inp). length inp)") auto

text \<open>
  Lines 74 and 75 of \<^verbatim>\<open>handle_message\<close>:
  \<^verbatim>\<open>reel_matches = re.findall(INSTAGRAM_REEL_PATTERN, effective_message.text)\<close> and
  \<^verbatim>\<open>is_link_only = INSTAGRAM_REEL_PATTERN.fullmatch(effective_message.text)\<close>, the latter
  used for its truth value (a match object is true, \<^verbatim>\<open>None\<close> is false).
\<close>

definition reel_matches :: "string \<Rightarrow> string list" where
  "reel_matches text = findall INSTAGRAM_REEL_PATTERN text"

definition is_link_only :: "string \<Rightarrow> bool" where
  "is_link_only text = (fullmatch INSTAGRAM_REEL_PATTERN text \<noteq> None)"

subsection \<open>The link grammar in the specification's words\<close>

text \<open>
  The specification gives the accepted grammar as
  \<^verbatim>\<open>https?://(www.)?<platform-domain>/([a-zA-Z0-9._-]+/)?reel/([a-zA-Z0-9_-]+)(/\?...)?/?\<close>.
  \<open>reel_url text tok\<close> spells it out as a decomposition of \<open>text\<close>, with \<open>tok\<close> the
  identifier; the character classes are enumerated character by character, and the
  elided query is any run of characters other than the space. It is the reference the
  matcher of the source is compared with, and is not used by the handler.
\<close>

definition seg_char :: "char \<Rightarrow> bool" where
  "seg_char x \<longleftrightarrow>
     x \<in> set (''abcdefghijklmnopqrstuvwxyz'' @ ''ABCDEFGHIJKLMNOPQRSTUVWXYZ'' @ ''0123456789'' @ ''._-'')"

definition tok_char :: "char \<Rightarrow> bool" where
  "tok_char x \<longleftrightarrow>
     x \<in> set (''abcdefghijklmnopqrstuvwxyz'' @ ''ABCDEFGHIJKLMNOPQRSTUVWXYZ'' @ ''0123456789'' @ ''_-'')"

definition reel_url :: "string \<Rightarrow> string \<Rightarrow> bool" where
  "reel_url text tok \<longleftrightarrow>
     (\<exists>scheme www seg query slash.
        text = scheme @ ''://'' @ www @ ''instagram.com/'' @ seg @ ''reel/'' @ tok @ query @ slash \<and>
        (scheme = ''http'' \<or> scheme = ''https'') \<and>
        (www = [] \<or> www = ''www.'') \<and>
        (seg = [] \<or> (\<exists>s. seg = s @ ''/'' \<and> s \<noteq> [] \<and> (\<forall>x\<in>set s. seg_char x))) \<and>
        tok \<noteq> [] \<and> (\<forall>x\<in>set tok. tok_char x) \<and>
        (query = [] \<or> (\<exists>q. query = ''/?'' @ q \<and> CHR '' '' \<notin> set q)) \<and>
        (slash = [] \<or> slash = ''/''))"

text \<open>
  The specification speaks of the \<^emph>\<open>trimmed\<close> message text. \<open>trim\<close> is Python's
  \<^verbatim>\<open>str.strip()\<close> on ASCII whitespace; the source never calls it.
\<close>

definition is_space :: "char \<Rightarrow> bool" where
  "is_space x \<longleftrightarrow> x \<in> set [CHR '' '', CHR 0x09, CHR 0x0A, CHR 0x0B, CHR 0x0C, CHR 0x0D]"

definition trim :: "string \<Rightarrow> string" where
  "trim s = rev (dropWhile is_space (rev (dropWhile is_space s)))"

text \<open>Words joined by single spaces, as \<^verbatim>\<open>' '.join(words)\<close>.\<close>

fun join_words :: "string list \<Rightarrow> string" where
  "join_words [] = []"
| "join_words [w] = w"
| "join_words (w # v # vs) = w @ CHR '' '' # join_words (v # vs)"

subsection \<open>Auxiliary notions for reasoning about the matcher\<close>

text \<open>The words a pattern matches, with the group content before and after.\<close>

inductive sem :: "rx \<Rightarrow> string \<Rightarrow> string option \<Rightarrow> string option \<Rightarrow> bool" where
  sem_Lit: "sem (Lit s) s c c"
| sem_Cls: "in_ranges rs x \<noteq> neg \<Longrightarrow> sem (Cls neg rs) [x] c c"
| sem_Seq: "sem a u c c1 \<Longrightarrow> sem b v c1 c2 \<Longrightarrow> sem (Seq a b) (u @ v) c c2"
| sem_Opt1: "sem a u c c1 \<Longrightarrow> sem (Opt a) u c c1"
| sem_Opt0: "sem (Opt a) [] c c"
| sem_Star0: "sem (Star a) [] c c"
| sem_Star1: "sem a u c c1 \<Longrightarrow> sem (Star a) v c1 c2 \<Longrightarrow> sem (Star a) (u @ v) c c2"
| sem_Grp: "sem a u c c1 \<Longrightarrow> sem (Grp a) u c (Some u)"

text \<open>A pattern none of whose atoms accepts the space character.\<close>

fun nospace :: "rx \<Rightarrow> bool" where
  "nospace (Lit s) = (CHR '' '' \<notin> set s)"
| "nospace (Cls neg rs) = (in_ranges rs CHR '' '' = neg)"
| "nospace (Seq a b) = (nospace a \<and> nospace b)"
| "nospace (Opt a) = nospace a"
| "nospace (Star a) = nospace a"
| "nospace (Grp a) = nospace a"

abbreviation seg_class :: rx where
  "seg_class \<equiv> Cls False [(CHR ''a'', CHR ''z''), (CHR ''A'', CHR ''Z''), (CHR ''0'', CHR ''9''),
                           (CHR ''.'', CHR ''.''), (CHR ''_'', CHR ''_''), (CHR ''-'', CHR ''-'')]"

abbreviation tok_class :: rx where
  "tok_class \<equiv> Cls False [(CHR ''a'', CHR ''z''), (CHR ''A'', CHR ''Z''), (CHR ''0'', CHR ''9''),
                           (CHR ''_'', CHR ''_''), (CHR ''-'', CHR ''-'')]"

abbreviation not_space :: rx where
  "not_space \<equiv> Cls True [(CHR '' '', CHR '' '')]"

text \<open>The pattern from the identifier on, and from the optional path segment on.\<close>

definition tail_rx :: rx where
  "tail_rx = seqs [Grp (Plus tok_class), Opt (Seq (Lit ''/?'') (Star not_space)), Opt (Lit ''/'')]"

definition segment_rx :: rx where
  "segment_rx = Seq (Opt (Seq (Plus seg_class) (Lit ''/''))) (Seq (Lit ''reel/'') tail_rx)"

section \<open>Exceptions, external calls and their trace\<close>

text \<open>
  An exception is its class and the text \<^verbatim>\<open>str(e)\<close> gives for it. Only the classes the
  source names or raises itself are kept apart; every other subclass of \<^verbatim>\<open>Exception\<close> is
  \<open>OtherException\<close>. (\<^verbatim>\<open>BaseException\<close>s such as a task cancellation are not modelled.)
\<close>

datatype exn_class = BadRequest | ValueError | FileNotFoundError | AttributeError | OtherException

datatype exn = Exn exn_class string

fun exn_class_of :: "exn \<Rightarrow> exn_class" where
  "exn_class_of (Exn k m) = k"

fun str_exn :: "exn \<Rightarrow> string" where
  "str_exn (Exn k m) = m"

text \<open>
  Modelled from the spec: \<^verbatim>\<open>ErrorDownload\<close> is imported from \<^verbatim>\<open>exceptions.py\<close>, which is
  not among the sources. The specification describes it as the terminal failure
  carrying the last captured error message and the attempt count; it is modelled as a
  value holding the two arguments \<^verbatim>\<open>download_reel\<close> passes to its constructor.
\<close>

datatype raised = Raised exn | ErrorDownload "string option" int

text \<open>
  A \<^verbatim>\<open>pathlib\<close> path, kept as the expression that builds it: \<open>Path s\<close> is \<^verbatim>\<open>Path(s)\<close> and
  \<open>Joinpath p s\<close> is \<^verbatim>\<open>p / s\<close>. The string a path renders to is never computed.
\<close>

datatype path = Path string | Joinpath path string

text \<open>
  Every call to a collaborator is recorded, in order, with whether it returned
  (\<open>True\<close>) or raised (\<open>False\<close>).
\<close>

datatype reaction = THUMBS_DOWN

datatype call =
    GetMember
  | ReplyText string int
  | SendChatAction
  | ProviderAttempt string int
  | Sleep int
  | SendVideo path string
  | DeleteMessage int
  | ReplyVideo path int string
  | SetReaction int reaction

type_synonym trace = "(call \<times> bool) list"

section \<open>The resilient fetcher: \<^verbatim>\<open>download_reel\<close> and \<^verbatim>\<open>check_file\<close>\<close>

definition MAX_RETRIES :: int where
  "MAX_RETRIES = 3"

definition RETRY_DELAY :: int where
  "RETRY_DELAY = 2"

definition TEMP_DIR :: path where
  "TEMP_DIR = Path ''temp_downloads''"

text \<open>
  The three messages of the source are Russian literals; they are given by their UTF-8
  bytes. In English: "the post contains no video", "the video file does not exist",
  "the downloaded file is empty".
\<close>

definition MSG_NO_VIDEO :: string where
  "MSG_NO_VIDEO =
     [CHR 0xD0, CHR 0x9F, CHR 0xD1, CHR 0x83, CHR 0xD0, CHR 0xB1, CHR 0xD0, CHR 0xBB,
      CHR 0xD0, CHR 0xB8, CHR 0xD0, CHR 0xBA, CHR 0xD0, CHR 0xB0, CHR 0xD1, CHR 0x86,
      CHR 0xD0, CHR 0xB8, CHR 0xD1, CHR 0x8F, CHR 0x20, CHR 0xD0, CHR 0xBD, CHR 0xD0,
      CHR 0xB5, CHR 0x20, CHR 0xD1, CHR 0x81, CHR 0xD0, CHR 0xBE, CHR 0xD0, CHR 0xB4,
      CHR 0xD0, CHR 0xB5, CHR 0xD1, CHR 0x80, CHR 0xD0, CHR 0xB6, CHR 0xD0, CHR 0xB8,
      CHR 0xD1, CHR 0x82, CHR 0x20, CHR 0xD0, CHR 0xB2, CHR 0xD0, CHR 0xB8, CHR 0xD0,
      CHR 0xB4, CHR 0xD0, CHR 0xB5, CHR 0xD0, CHR 0xBE]"

definition MSG_NO_FILE :: string where
  "MSG_NO_FILE =
     [CHR 0xD0, CHR 0xA4, CHR 0xD0, CHR 0xB0, CHR 0xD0, CHR 0xB9, CHR 0xD0, CHR 0xBB,
      CHR 0x20, CHR 0xD0, CHR 0xB2, CHR 0xD0, CHR 0xB8, CHR 0xD0, CHR 0xB4, CHR 0xD0,
      CHR 0xB5, CHR 0xD0, CHR 0xBE, CHR 0x20, CHR 0xD0, CHR 0xBD, CHR 0xD0, CHR 0xB5,
      CHR 0x20, CHR 0xD1, CHR 0x81, CHR 0xD1, CHR 0x83, CHR 0xD1, CHR 0x89, CHR 0xD0,
      CHR 0xB5, CHR 0xD1, CHR 0x81, CHR 0xD1, CHR 0x82, CHR 0xD0, CHR 0xB2, CHR 0xD1,
      CHR 0x83, CHR 0xD0, CHR 0xB5, CHR 0xD1, CHR 0x82]"

definition MSG_EMPTY_FILE :: string where
  "MSG_EMPTY_FILE =
     [CHR 0xD0, CHR 0x97, CHR 0xD0, CHR 0xB0, CHR 0xD0, CHR 0xB3, CHR 0xD1, CHR 0x80,
      CHR 0xD1, CHR 0x83, CHR 0xD0, CHR 0xB6, CHR 0xD0, CHR 0xB5, CHR 0xD0, CHR 0xBD,
      CHR 0xD0, CHR 0xBD, CHR 0xD1, CHR 0x8B, CHR 0xD0, CHR 0xB9, CHR 0x20, CHR 0xD1,
      CHR 0x84, CHR 0xD0, CHR 0xB0, CHR 0xD0, CHR 0xB9, CHR 0xD0, CHR 0xBB, CHR 0x20,
      CHR 0xD0, CHR 0xBF, CHR 0xD1, CHR 0x83, CHR 0xD1, CHR 0x81, CHR 0xD1, CHR 0x82]"

text \<open>
  What the content provider and the file system do during one attempt: the result of
  \<^verbatim>\<open>Post.from_shortcode\<close>, whether \<^verbatim>\<open>L.download_post\<close> raises, and the state of
  \<^verbatim>\<open>TEMP_DIR / f'{shortcode}.mp4'\<close> afterwards.
\<close>

record post =
  is_video :: bool

record attempt_world =
  from_shortcode :: "exn + post"
  download_post :: "exn option"
  file_exists :: bool
  st_size :: nat

definition check_file :: "attempt_world \<Rightarrow> exn option" where
  "check_file w =
     (if \<not> file_exists w then Some (Exn FileNotFoundError MSG_NO_FILE)
      else if st_size w = 0 then Some (Exn ValueError MSG_EMPTY_FILE)
      else None)"

text \<open>The body of the \<^verbatim>\<open>try\<close> in \<^verbatim>\<open>download_reel\<close>: an exception, or the video path.\<close>

definition attempt :: "attempt_world \<Rightarrow> string \<Rightarrow> exn + path" where
  "attempt w shortcode =
     (case from_shortcode w of
        Inl e \<Rightarrow> Inl e
      | Inr p \<Rightarrow>
          if \<not> is_video p then Inl (Exn ValueError MSG_NO_VIDEO)
          else (case download_post w of
                  Some e \<Rightarrow> Inl e
                | None \<Rightarrow>
                    (case check_file w of
                       Some e \<Rightarrow> Inl e
                     | None \<Rightarrow> Inr (Joinpath TEMP_DIR (shortcode @ ''.mp4'')))))"

text \<open>
  The \<^verbatim>\<open>while retry_count <= MAX_RETRIES\<close> loop, with the loop variables \<open>retry_count\<close>
  and \<open>last_error\<close> and the trace as arguments. \<open>provider k\<close> is what the collaborators do
  on the attempt made with \<open>retry_count = k\<close>.
\<close>

function download_loop ::
  "(int \<Rightarrow> attempt_world) \<Rightarrow> string \<Rightarrow> int \<Rightarrow> string option \<Rightarrow> trace \<Rightarrow> (raised + path) \<times> trace" where
  "download_loop provider shortcode retry_count last_error tr =
     (if retry_count \<le> MAX_RETRIES then
        (case attempt (provider retry_count) shortcode of
           Inr video_path \<Rightarrow> (Inr video_path, tr @ [(ProviderAttempt shortcode retry_count, True)])
         | Inl e \<Rightarrow>
             download_loop provider shortcode (retry_count + 1)
               (Some (''Unexpected error: '' @ str_exn e @ '' for '' @ shortcode))
               (tr @ [(ProviderAttempt shortcode retry_count, False)] @
                  (if retry_count + 1 \<le> MAX_RETRIES then [(Sleep RETRY_DELAY, True)] else [])))
      else (Inl (ErrorDownload last_error retry_count), tr))"
  by pat_completeness auto

termination
  by (relation "measure (\<lambda>(provider, shortcode, retry_count, last_error, tr).
        nat (MAX_RETRIES + 1 - retry_count))") auto

definition download_reel :: "(int \<Rightarrow> attempt_world) \<Rightarrow> string \<Rightarrow> trace \<Rightarrow> (raised + path) \<times> trace" where
  "download_reel provider shortcode tr = download_loop provider shortcode 1 None tr"

section \<open>The permission gate: \<^verbatim>\<open>check_bot_permissions\<close>\<close>

datatype chat_type = PRIVATE | GROUP | SUPERGROUP | CHANNEL | SENDER

datatype member_status = OWNER | ADMINISTRATOR | MEMBER | RESTRICTED | LEFT | BANNED

record chat =
  chat_type :: chat_type
  chat_id :: int

text \<open>
  The membership record \<^verbatim>\<open>chat.get_member\<close> returns. The source reads its \<open>status\<close>,
  tests \<^verbatim>\<open>isinstance(bot_member, ChatMemberAdministrator)\<close>, and reads three capability
  attributes with \<^verbatim>\<open>getattr(bot_member, right, False)\<close>: \<open>None\<close> stands for an attribute that
  is absent (or is \<^verbatim>\<open>None\<close>), which Python takes as false.
\<close>

record chat_member =
  status :: member_status
  is_ChatMemberAdministrator :: bool
  can_send_messages :: "bool option"
  can_send_media_messages :: "bool option"
  can_send_other_messages :: "bool option"

record user =
  user_id :: int
  full_name :: string

record message =
  msg_text :: "string option"
  message_id :: int
  msg_chat :: chat
  from_user :: "user option"

record update =
  message :: "message option"
  channel_post :: "message option"
  effective_chat :: "chat option"

text \<open>
  What the collaborators do during one run of the handler. The calls made while
  handling the \<open>i\<close>-th identifier of the message (counted from 0) take their outcome at
  \<open>i\<close>: \<open>None\<close> when the call returns, \<open>Some e\<close> when it raises \<open>e\<close>. Opening the downloaded
  file belongs to the send call that takes it as argument.
\<close>

record env =
  get_member :: "exn + chat_member"
  reply_text :: "exn option"
  chat_action_before :: "nat \<Rightarrow> exn option"
  provider :: "nat \<Rightarrow> int \<Rightarrow> attempt_world"
  chat_action_after :: "nat \<Rightarrow> exn option"
  send_video :: "nat \<Rightarrow> exn option"
  delete_message :: "nat \<Rightarrow> exn option"
  reply_video :: "nat \<Rightarrow> exn option"
  set_reaction :: "nat \<Rightarrow> exn option"

text \<open>Python's truth value of \<^verbatim>\<open>True\<close>, \<^verbatim>\<open>False\<close> and \<^verbatim>\<open>None\<close>.\<close>

fun truthy :: "bool option \<Rightarrow> bool" where
  "truthy None = False"
| "truthy (Some b) = b"

definition required_rights :: "(string \<times> bool) list" where
  "required_rights =
     [(''can_send_messages'', True),
      (''can_send_media_messages'', True),
      (''can_send_other_messages'', True)]"

definition getattr_member :: "chat_member \<Rightarrow> string \<Rightarrow> bool option" where
  "getattr_member m right =
     (if right = ''can_send_messages'' then can_send_messages m
      else if right = ''can_send_media_messages'' then can_send_media_messages m
      else if right = ''can_send_other_messages'' then can_send_other_messages m
      else None)"

text \<open>
  \<^verbatim>\<open>for right, required in required_rights.items(): if not getattr(bot_member, right, False) and required: return False\<close>,
  then \<^verbatim>\<open>return True\<close>.
\<close>

fun rights_loop :: "chat_member \<Rightarrow> (string \<times> bool) list \<Rightarrow> bool" where
  "rights_loop m [] = True"
| "rights_loop m ((right, required) # rest) =
     (if \<not> truthy (getattr_member m right) \<and> required then False else rights_loop m rest)"

text \<open>
  The result is \<open>Inl e\<close> when an exception other than \<^verbatim>\<open>BadRequest\<close> leaves the function,
  and otherwise the returned Python value: \<open>Some True\<close>, \<open>Some False\<close>, or \<open>None\<close> where the
  function falls off its end.
\<close>

definition check_bot_permissions :: "env \<Rightarrow> update \<Rightarrow> (exn + bool option) \<times> trace" where
  "check_bot_permissions env upd =
     (case effective_chat upd of
        None \<Rightarrow> (Inr (Some False), [])
      | Some chat \<Rightarrow>
          if chat_type chat = PRIVATE then (Inr (Some True), [])
          else
            (case get_member env of
               Inl e \<Rightarrow>
                 (if exn_class_of e = BadRequest then Inr (Some False) else Inl e, [(GetMember, False)])
             | Inr bot_member \<Rightarrow>
                 (Inr (if chat_type chat = SUPERGROUP \<and> status bot_member = ADMINISTRATOR then Some True
                       else if is_ChatMemberAdministrator bot_member
                         then Some (rights_loop bot_member required_rights)
                       else if status bot_member = MEMBER then Some True
                       else None),
                  [(GetMember, True)])))"

section \<open>The dispatch orchestrator: \<^verbatim>\<open>handle_message\<close>\<close>

text \<open>
  The notice sent on denial, a Russian literal given by its UTF-8 bytes. In English:
  "The bot has insufficient rights. Please grant the rights to send messages and media."
\<close>

definition PERMISSION_NOTICE :: string where
  "PERMISSION_NOTICE =
     [CHR 0xD0, CHR 0xA3, CHR 0x20, CHR 0xD0, CHR 0xB1, CHR 0xD0, CHR 0xBE, CHR 0xD1,
      CHR 0x82, CHR 0xD0, CHR 0xB0, CHR 0x20, CHR 0xD0, CHR 0xBD, CHR 0xD0, CHR 0xB5,
      CHR 0xD0, CHR 0xB4, CHR 0xD0, CHR 0xBE, CHR 0xD1, CHR 0x81, CHR 0xD1, CHR 0x82,
      CHR 0xD0, CHR 0xB0, CHR 0xD1, CHR 0x82, CHR 0xD0, CHR 0xBE, CHR 0xD1, CHR 0x87,
      CHR 0xD0, CHR 0xBD, CHR 0xD0, CHR 0xBE, CHR 0x20, CHR 0xD0, CHR 0xBF, CHR 0xD1,
      CHR 0x80, CHR 0xD0, CHR 0xB0, CHR 0xD0, CHR 0xB2, CHR 0x2E, CHR 0x20, CHR 0xD0,
      CHR 0x9F, CHR 0xD0, CHR 0xBE, CHR 0xD0, CHR 0xB6, CHR 0xD0, CHR 0xB0, CHR 0xD0,
      CHR 0xBB, CHR 0xD1, CHR 0x83, CHR 0xD0, CHR 0xB9, CHR 0xD1, CHR 0x81, CHR 0xD1,
      CHR 0x82, CHR 0xD0, CHR 0xB0, CHR 0x2C, CHR 0x20, CHR 0xD0, CHR 0xBF, CHR 0xD1,
      CHR 0x80, CHR 0xD0, CHR 0xB5, CHR 0xD0, CHR 0xB4, CHR 0xD0, CHR 0xBE, CHR 0xD1,
      CHR 0x81, CHR 0xD1, CHR 0x82, CHR 0xD0, CHR 0xB0, CHR 0xD0, CHR 0xB2, CHR 0xD1,
      CHR 0x8C, CHR 0xD1, CHR 0x82, CHR 0xD0, CHR 0xB5, CHR 0x20, CHR 0xD0, CHR 0xBF,
      CHR 0xD1, CHR 0x80, CHR 0xD0, CHR 0xB0, CHR 0xD0, CHR 0xB2, CHR 0xD0, CHR 0xB0,
      CHR 0x20, CHR 0xD0, CHR 0xBD, CHR 0xD0, CHR 0xB0, CHR 0x20, CHR 0xD0, CHR 0xBE,
      CHR 0xD1, CHR 0x82, CHR 0xD0, CHR 0xBF, CHR 0xD1, CHR 0x80, CHR 0xD0, CHR 0xB0,
      CHR 0xD0, CHR 0xB2, CHR 0xD0, CHR 0xBA, CHR 0xD1, CHR 0x83, CHR 0x20, CHR 0xD1,
      CHR 0x81, CHR 0xD0, CHR 0xBE, CHR 0xD0, CHR 0xBE, CHR 0xD0, CHR 0xB1, CHR 0xD1,
      CHR 0x89, CHR 0xD0, CHR 0xB5, CHR 0xD0, CHR 0xBD, CHR 0xD0, CHR 0xB8, CHR 0xD0,
      CHR 0xB9, CHR 0x20, CHR 0xD0, CHR 0xB8, CHR 0x20, CHR 0xD0, CHR 0xBC, CHR 0xD0,
      CHR 0xB5, CHR 0xD0, CHR 0xB4, CHR 0xD0, CHR 0xB8, CHR 0xD0, CHR 0xB0, CHR 0x2E]"

text \<open>
  Reading an attribute of \<^verbatim>\<open>None\<close> raises \<^verbatim>\<open>AttributeError\<close>; its message is only ever
  logged.
\<close>

definition none_attribute :: "string \<Rightarrow> exn" where
  "none_attribute name = Exn AttributeError (''NoneType object has no attribute '' @ name)"

text \<open>
  Lines 100-101: the \<^verbatim>\<open>logger.info\<close> call formats
  \<^verbatim>\<open>effective_message.from_user.full_name\<close>, which raises when the message has no sender.
\<close>

definition log_sent :: "message \<Rightarrow> trace \<Rightarrow> raised option \<times> trace" where
  "log_sent em tr =
     (case from_user em of
        None \<Rightarrow> (Some (Raised (none_attribute ''full_name'')), tr)
      | Some u \<Rightarrow> (None, tr))"

text \<open>Lines 85-98: the caption and the choice of the delivery mode.\<close>

definition deliver ::
  "env \<Rightarrow> message \<Rightarrow> bool \<Rightarrow> nat \<Rightarrow> string \<Rightarrow> path \<Rightarrow> trace \<Rightarrow> raised option \<times> trace" where
  "deliver env em link_only i reel_id video_path tr =
     (let source_link = ''https://instagram.com/reel/'' @ reel_id in
      if link_only then
        (case send_video env i of
           Some e \<Rightarrow> (Some (Raised e), tr @ [(SendVideo video_path source_link, False)])
         | None \<Rightarrow>
             (case delete_message env i of
                Some e \<Rightarrow>
                  (Some (Raised e),
                   tr @ [(SendVideo video_path source_link, True), (DeleteMessage (message_id em), False)])
              | None \<Rightarrow>
                  log_sent em
                    (tr @ [(SendVideo video_path source_link, True), (DeleteMessage (message_id em), True)])))
      else
        (case reply_video env i of
           Some e \<Rightarrow> (Some (Raised e), tr @ [(ReplyVideo video_path (message_id em) source_link, False)])
         | None \<Rightarrow> log_sent em (tr @ [(ReplyVideo video_path (message_id em) source_link, True)])))"

text \<open>
  Lines 79-101, the body of the \<^verbatim>\<open>try\<close>: \<open>None\<close> when it runs to its end, \<open>Some x\<close> when \<open>x\<close>
  is raised. Both activity signals go through \<^verbatim>\<open>update.message.chat\<close>, not through the
  effective message.
\<close>

definition try_block ::
  "env \<Rightarrow> update \<Rightarrow> message \<Rightarrow> bool \<Rightarrow> nat \<Rightarrow> string \<Rightarrow> trace \<Rightarrow> raised option \<times> trace" where
  "try_block env upd em link_only i reel_id tr =
     (case message upd of
        None \<Rightarrow> (Some (Raised (none_attribute ''chat'')), tr)
      | Some m \<Rightarrow>
          (case chat_action_before env i of
             Some e \<Rightarrow> (Some (Raised e), tr @ [(SendChatAction, False)])
           | None \<Rightarrow>
               (case download_reel (provider env i) reel_id (tr @ [(SendChatAction, True)]) of
                  (Inl x, tr1) \<Rightarrow> (Some x, tr1)
                | (Inr video_path, tr1) \<Rightarrow>
                    (case chat_action_after env i of
                       Some e \<Rightarrow> (Some (Raised e), tr1 @ [(SendChatAction, False)])
                     | None \<Rightarrow>
                         deliver env em link_only i reel_id video_path
                           (tr1 @ [(SendChatAction, True)])))))"

text \<open>
  One iteration of \<^verbatim>\<open>for reel_id in reel_matches\<close>: the \<^verbatim>\<open>try\<close> and its
  \<^verbatim>\<open>except Exception\<close>, which sets the reaction. An exception raised by
  \<^verbatim>\<open>set_reaction\<close> itself leaves the handler.
\<close>

definition reel_iteration ::
  "env \<Rightarrow> update \<Rightarrow> message \<Rightarrow> bool \<Rightarrow> nat \<Rightarrow> string \<Rightarrow> trace \<Rightarrow> exn option \<times> trace" where
  "reel_iteration env upd em link_only i reel_id tr =
     (case try_block env upd em link_only i reel_id tr of
        (None, tr1) \<Rightarrow> (None, tr1)
      | (Some x, tr1) \<Rightarrow>
          (case set_reaction env i of
             None \<Rightarrow> (None, tr1 @ [(SetReaction (message_id em) THUMBS_DOWN, True)])
           | Some e \<Rightarrow> (Some e, tr1 @ [(SetReaction (message_id em) THUMBS_DOWN, False)])))"

fun for_reel_matches ::
  "env \<Rightarrow> update \<Rightarrow> message \<Rightarrow> bool \<Rightarrow> nat \<Rightarrow> string list \<Rightarrow> trace \<Rightarrow> exn option \<times> trace" where
  "for_reel_matches env upd em link_only i [] tr = (None, tr)"
| "for_reel_matches env upd em link_only i (reel_id # rest) tr =
     (case reel_iteration env upd em link_only i reel_id tr of
        (Some e, tr1) \<Rightarrow> (Some e, tr1)
      | (None, tr1) \<Rightarrow> for_reel_matches env upd em link_only (Suc i) rest tr1)"

text \<open>Lines 61-70: what the handler does when the gate does not authorize.\<close>

definition denied :: "env \<Rightarrow> update \<Rightarrow> message \<Rightarrow> trace \<Rightarrow> exn option \<times> trace" where
  "denied env upd em tr =
     (case effective_chat upd of
        None \<Rightarrow> (Some (none_attribute ''type''), tr)
      | Some chat \<Rightarrow>
          if chat_type chat \<noteq> CHANNEL then
            (case reply_text env of
               None \<Rightarrow> (None, tr @ [(ReplyText PERMISSION_NOTICE (message_id em), True)])
             | Some e \<Rightarrow>
                 (if exn_class_of e = BadRequest then None else Some e,
                  tr @ [(ReplyText PERMISSION_NOTICE (message_id em), False)]))
          else (None, tr))"

text \<open>
  The handler: the exception that leaves it, if any, and the trace of its calls.
  \<^verbatim>\<open>update.message or update.channel_post\<close> is the message when there is one.
\<close>

definition effective_message :: "update \<Rightarrow> message option" where
  "effective_message upd = (case message upd of Some m \<Rightarrow> Some m | None \<Rightarrow> channel_post upd)"

definition handle_message :: "env \<Rightarrow> update \<Rightarrow> exn option \<times> trace" where
  "handle_message env upd =
     (case effective_message upd of
        None \<Rightarrow> (None, [])
      | Some em \<Rightarrow>
          (case msg_text em of
             None \<Rightarrow> (None, [])
           | Some text \<Rightarrow>
               if text = [] then (None, [])
               else
                 (case check_bot_permissions env upd of
                    (Inl e, tr) \<Rightarrow> (Some e, tr)
                  | (Inr allowed, tr) \<Rightarrow>
                      if \<not> truthy allowed then denied env upd em tr
                      else for_reel_matches env upd em (is_link_only text) 0 (reel_matches text) tr)))"

section \<open>Observations on a trace\<close>

text \<open>A call that changes what the chat shows: a media post or reply that went through, or a
  deletion that went through.\<close>

fun changes_chat :: "call \<times> bool \<Rightarrow> bool" where
  "changes_chat (SendVideo p s, ok) = ok"
| "changes_chat (ReplyVideo p k s, ok) = ok"
| "changes_chat (DeleteMessage k, ok) = ok"
| "changes_chat (c, ok) = False"

fun is_delete :: "call \<Rightarrow> bool" where
  "is_delete (DeleteMessage k) = True"
| "is_delete c = False"

fun is_send_video :: "call \<Rightarrow> bool" where
  "is_send_video (SendVideo p s) = True"
| "is_send_video c = False"

text \<open>Every deletion in a trace comes directly after a standalone media post that went
  through; \<open>prev\<close> tells whether the call before the trace was one.\<close>

fun deletes_after :: "bool \<Rightarrow> trace \<Rightarrow> bool" where
  "deletes_after prev [] = True"
| "deletes_after prev ((c, ok) # tr) =
     ((if is_delete c then prev else True) \<and> deletes_after (is_send_video c \<and> ok) tr)"


text \<open>The handling of the \<open>i\<close>-th identifier fails before its media is delivered: there is no
  \<^verbatim>\<open>update.message\<close>, or an activity signal, the fetch, or the send itself raises.\<close>

definition fails_before_delivery :: "env \<Rightarrow> update \<Rightarrow> bool \<Rightarrow> nat \<Rightarrow> string \<Rightarrow> bool" where
  "fails_before_delivery env upd link_only i reel_id \<longleftrightarrow>
     message upd = None \<or>
     chat_action_before env i \<noteq> None \<or>
     (\<exists>x. fst (download_reel (provider env i) reel_id []) = Inl x) \<or>
     chat_action_after env i \<noteq> None \<or>
     (if link_only then send_video env i \<noteq> None else reply_video env i \<noteq> None)"

section \<open>Concrete inputs\<close>

text \<open>Behaviours of the collaborators during one attempt, and chats, membership records,
  environments and updates, used in the examples below.\<close>

definition never_found :: attempt_world where
  "never_found = \<lparr>from_shortcode = Inl (Exn OtherException ''Fetching Post metadata failed.''),
                  download_post = None, file_exists = False, st_size = 0\<rparr>"

definition empty_file :: attempt_world where
  "empty_file = \<lparr>from_shortcode = Inr \<lparr>is_video = True\<rparr>,
                 download_post = None, file_exists = True, st_size = 0\<rparr>"

definition good_file :: attempt_world where
  "good_file = \<lparr>from_shortcode = Inr \<lparr>is_video = True\<rparr>,
                download_post = None, file_exists = True, st_size = 1024\<rparr>"

definition private_chat :: chat where
  "private_chat = \<lparr>chat_type = PRIVATE, chat_id = 42\<rparr>"

definition group_chat :: chat where
  "group_chat = \<lparr>chat_type = GROUP, chat_id = -100\<rparr>"

definition supergroup_chat :: chat where
  "supergroup_chat = \<lparr>chat_type = SUPERGROUP, chat_id = -1001\<rparr>"


definition plain_member :: chat_member where
  "plain_member = \<lparr>status = MEMBER, is_ChatMemberAdministrator = False,
     can_send_messages = None, can_send_media_messages = None, can_send_other_messages = None\<rparr>"

definition bare_administrator :: chat_member where
  "bare_administrator = \<lparr>status = ADMINISTRATOR, is_ChatMemberAdministrator = True,
     can_send_messages = None, can_send_media_messages = None, can_send_other_messages = None\<rparr>"

definition full_administrator :: chat_member where
  "full_administrator = \<lparr>status = ADMINISTRATOR, is_ChatMemberAdministrator = True,
     can_send_messages = Some True, can_send_media_messages = Some True,
     can_send_other_messages = Some True\<rparr>"

definition calm_env :: env where
  "calm_env = \<lparr>get_member = Inr plain_member, reply_text = None,
     chat_action_before = (\<lambda>i. None), provider = (\<lambda>i k. good_file),
     chat_action_after = (\<lambda>i. None), send_video = (\<lambda>i. None), delete_message = (\<lambda>i. None),
     reply_video = (\<lambda>i. None), set_reaction = (\<lambda>i. None)\<rparr>"

definition text_message :: "string \<Rightarrow> chat \<Rightarrow> message" where
  "text_message text c = \<lparr>msg_text = Some text, message_id = 7, msg_chat = c,
     from_user = Some \<lparr>user_id = 42, full_name = ''Ann''\<rparr>\<rparr>"

definition as_message :: "message \<Rightarrow> update" where
  "as_message m = \<lparr>message = Some m, channel_post = None, effective_chat = Some (msg_chat m)\<rparr>"


section \<open>Properties of the matcher\<close>

text \<open>
  The equation of \<open>matches\<close> for \<^verbatim>\<open>*\<close>, the equation of \<open>findall\<close> and the equation of
  \<open>download_loop\<close> unfold into themselves, so they are applied by hand.
\<close>

declare matches.simps(5) [simp del]

lemma lit_Some: "lit s inp = Some r \<Longrightarrow> inp = s @ r"
  by (induction s arbitrary: inp) (auto split: list.splits if_splits)

lemma lit_append: "lit s (s @ r) = Some r"
  by (induction s) auto

lemma matches_sound:
  "(r, c') \<in> set (matches a inp c) \<Longrightarrow> \<exists>w. inp = w @ r \<and> sem a w c c'"
proof (induction a inp c arbitrary: r c' rule: matches.induct)
  case (1 s inp c)
  then show ?case by (auto split: option.splits dest!: lit_Some[OF sym] intro: sem.intros)
next
  case (2 neg rs inp c)
  then show ?case by (auto split: list.splits if_splits intro: sem.intros)
next
  case (3 a b inp c)
  from "3.prems" obtain r1 c1 where m1: "(r1, c1) \<in> set (matches a inp c)"
    and m2: "(r, c') \<in> set (matches b r1 c1)" by auto
  from "3.IH"(1)[OF m1] obtain u where u: "inp = u @ r1" "sem a u c c1" by blast
  from "3.IH"(2)[OF m1 _ m2] obtain v where v: "r1 = v @ r" "sem b v c1 c'" by blast
  from u v show ?case by (auto intro: sem.intros)
next
  case (4 a inp c)
  from "4.prems" have "(r, c') \<in> set (matches a inp c) \<or> (r = inp \<and> c' = c)" by auto
  then show ?case
  proof
    assume "(r, c') \<in> set (matches a inp c)"
    from "4.IH"[OF this] obtain w where "inp = w @ r" "sem a w c c'" by blast
    then show ?thesis by (blast intro: sem_Opt1)
  next
    assume "r = inp \<and> c' = c"
    then show ?thesis by (auto intro: sem_Opt0)
  qed
next
  case (5 a inp c)
  have "matches (Star a) inp c =
     concat (map (\<lambda>(r, c'). if length r < length inp then matches (Star a) r c' else [])
                 (matches a inp c)) @ [(inp, c)]"
    by (rule matches.simps(5))
  with "5.prems" have "(r = inp \<and> c' = c) \<or>
      (\<exists>r1 c1. (r1, c1) \<in> set (matches a inp c) \<and> length r1 < length inp \<and>
        (r, c') \<in> set (matches (Star a) r1 c1))"
    by (simp only: set_append set_concat set_map list.set Un_iff UN_iff) (force split: if_splits)
  then show ?case
  proof
    assume "r = inp \<and> c' = c"
    then show ?thesis by (auto intro: sem_Star0)
  next
    assume "\<exists>r1 c1. (r1, c1) \<in> set (matches a inp c) \<and> length r1 < length inp \<and>
        (r, c') \<in> set (matches (Star a) r1 c1)"
    then obtain r1 c1 where step: "(r1, c1) \<in> set (matches a inp c)" "length r1 < length inp"
        "(r, c') \<in> set (matches (Star a) r1 c1)" by blast
    from "5.IH"(1)[OF step(1)] obtain u where u: "inp = u @ r1" "sem a u c c1" by blast
    from "5.IH"(2)[OF step(1) _ step(2) step(3)] obtain v where v: "r1 = v @ r" "sem (Star a) v c1 c'"
      by blast
    from u v show ?thesis by (auto intro: sem_Star1)
  qed
next
  case (6 a inp c)
  from "6.prems" obtain c1 where m: "(r, c1) \<in> set (matches a inp c)"
    and c': "c' = Some (take (length inp - length r) inp)" by auto
  from "6.IH"[OF m] obtain w where w: "inp = w @ r" "sem a w c c1" by blast
  with c' show ?case by (auto intro: sem.intros)
qed

lemma char_range_enum:
  "((of_char lo :: nat) \<le> of_char x \<and> (of_char x :: nat) \<le> of_char hi) =
     (x \<in> set (map char_of [of_char lo ..< Suc (of_char hi :: nat)]))"
proof -
  have "x \<in> char_of ` {of_char lo ..< Suc (of_char hi :: nat)} \<longleftrightarrow>
        (of_char lo :: nat) \<le> of_char x \<and> (of_char x :: nat) \<le> of_char hi"
  proof
    assume "x \<in> char_of ` {of_char lo ..< Suc (of_char hi :: nat)}"
    then obtain n :: nat where n: "x = char_of n" "of_char lo \<le> n" "n \<le> of_char hi" by auto
    have "n < 256" using n(3) nat_of_char_less_256[of hi] by linarith
    then have "of_char x = n" using n(1) by simp
    with n show "(of_char lo :: nat) \<le> of_char x \<and> (of_char x :: nat) \<le> of_char hi" by simp
  next
    assume "(of_char lo :: nat) \<le> of_char x \<and> (of_char x :: nat) \<le> of_char hi"
    then have "(of_char x :: nat) \<in> {of_char lo ..< Suc (of_char hi :: nat)}" by simp
    then have "char_of (of_char x :: nat) \<in> char_of ` {of_char lo ..< Suc (of_char hi :: nat)}"
      by (rule imageI)
    then show "x \<in> char_of ` {of_char lo ..< Suc (of_char hi :: nat)}" by simp
  qed
  then show ?thesis unfolding set_map set_upt by blast
qed

lemma seg_class: "in_ranges [(CHR ''a'', CHR ''z''), (CHR ''A'', CHR ''Z''), (CHR ''0'', CHR ''9''),
                                 (CHR ''.'', CHR ''.''), (CHR ''_'', CHR ''_''), (CHR ''-'', CHR ''-'')] x = seg_char x"
proof -
  have e: "map char_of [of_char CHR ''a'' ..< Suc (of_char CHR ''z'' :: nat)] = ''abcdefghijklmnopqrstuvwxyz''"
     "map char_of [of_char CHR ''A'' ..< Suc (of_char CHR ''Z'' :: nat)] = ''ABCDEFGHIJKLMNOPQRSTUVWXYZ''"
     "map char_of [of_char CHR ''0'' ..< Suc (of_char CHR ''9'' :: nat)] = ''0123456789''"
     "map char_of [of_char CHR ''.'' ..< Suc (of_char CHR ''.'' :: nat)] = ''.''"
     "map char_of [of_char CHR ''_'' ..< Suc (of_char CHR ''_'' :: nat)] = ''_''"
     "map char_of [of_char CHR ''-'' ..< Suc (of_char CHR ''-'' :: nat)] = ''-''"
    by code_simp+
  show ?thesis
  proof -
    have p: "x \<in> set ''._-'' \<longleftrightarrow> x \<in> set ''.'' \<or> x \<in> set ''_'' \<or> x \<in> set ''-''"
      by simp
    show ?thesis
      by (simp only: in_ranges.simps char_range_enum e seg_char_def set_append Un_iff simp_thms p)
  qed
qed

lemma tok_class: "in_ranges [(CHR ''a'', CHR ''z''), (CHR ''A'', CHR ''Z''), (CHR ''0'', CHR ''9''),
                            (CHR ''_'', CHR ''_''), (CHR ''-'', CHR ''-'')] x = tok_char x"
proof -
  have e: "map char_of [of_char CHR ''a'' ..< Suc (of_char CHR ''z'' :: nat)] = ''abcdefghijklmnopqrstuvwxyz''"
     "map char_of [of_char CHR ''A'' ..< Suc (of_char CHR ''Z'' :: nat)] = ''ABCDEFGHIJKLMNOPQRSTUVWXYZ''"
     "map char_of [of_char CHR ''0'' ..< Suc (of_char CHR ''9'' :: nat)] = ''0123456789''"
     "map char_of [of_char CHR ''_'' ..< Suc (of_char CHR ''_'' :: nat)] = ''_''"
     "map char_of [of_char CHR ''-'' ..< Suc (of_char CHR ''-'' :: nat)] = ''-''"
    by code_simp+
  have p: "x \<in> set ''_-'' \<longleftrightarrow> x \<in> set ''_'' \<or> x \<in> set ''-''"
    by simp
  show ?thesis
    by (simp only: in_ranges.simps char_range_enum e tok_char_def set_append Un_iff simp_thms p)
qed

lemma space_class: "in_ranges [(CHR '' '', CHR '' '')] x = (x = CHR '' '')"
proof -
  have e: "map char_of [of_char CHR '' '' ..< Suc (of_char CHR '' '' :: nat)] = '' ''"
    by code_simp
  show ?thesis
    by (simp only: in_ranges.simps char_range_enum e simp_thms) simp
qed

inductive_simps sem_Lit_iff: "sem (Lit s) w c c'"

inductive_simps sem_Cls_iff: "sem (Cls neg rs) w c c'"

inductive_simps sem_Seq_iff: "sem (Seq a b) w c c'"

inductive_simps sem_Opt_iff: "sem (Opt a) w c c'"

inductive_simps sem_Grp_iff: "sem (Grp a) w c c'"

lemma sem_Star_Cls:
  "sem r w c c' \<Longrightarrow> r = Star (Cls neg rs) \<Longrightarrow> c' = c \<and> (\<forall>x\<in>set w. in_ranges rs x \<noteq> neg)"
proof (induction rule: sem.induct)
  case (sem_Lit s c)
  from sem_Lit show ?case by simp
next
  case (sem_Cls rs x neg c)
  from sem_Cls.prems show ?case by simp
next
  case (sem_Seq a u c c1 b v c2)
  from sem_Seq.prems show ?case by simp
next
  case (sem_Opt1 a u c c1)
  from sem_Opt1.prems show ?case by simp
next
  case (sem_Opt0 a c)
  from sem_Opt0 show ?case by simp
next
  case (sem_Star0 a c)
  show ?case by simp
next
  case (sem_Star1 a u c c1 v c2)
  from sem_Star1.prems have a: "a = Cls neg rs" by simp
  from sem_Star1.hyps(1) have u: "c1 = c \<and> (\<forall>x\<in>set u. in_ranges rs x \<noteq> neg)"
    unfolding a sem_Cls_iff by auto
  from sem_Star1.IH(2)[OF sem_Star1.prems] u show ?case by auto
next
  case (sem_Grp a u c c1)
  from sem_Grp.prems show ?case by simp
qed

lemma sem_Plus_Cls:
  "sem (Plus (Cls neg rs)) w c c' \<Longrightarrow> c' = c \<and> w \<noteq> [] \<and> (\<forall>x\<in>set w. in_ranges rs x \<noteq> neg)"
proof -
  assume "sem (Plus (Cls neg rs)) w c c'"
  then obtain u v c1 where w: "w = u @ v" "sem (Cls neg rs) u c c1" "sem (Star (Cls neg rs)) v c1 c'"
    unfolding sem_Seq_iff by blast
  from w(2) have u: "c1 = c \<and> u \<noteq> [] \<and> (\<forall>x\<in>set u. in_ranges rs x \<noteq> neg)"
    unfolding sem_Cls_iff by auto
  from sem_Star_Cls[OF w(3) refl] u w(1) show ?thesis by auto
qed

lemma sem_seqs10:
  assumes "sem (seqs [a1, a2, a3, a4, a5, a6, a7, a8, a9, a10]) w c0 c10"
  obtains u1 u2 u3 u4 u5 u6 u7 u8 u9 u10 c1 c2 c3 c4 c5 c6 c7 c8 c9 where
    "w = u1 @ u2 @ u3 @ u4 @ u5 @ u6 @ u7 @ u8 @ u9 @ u10"
    "sem a1 u1 c0 c1" "sem a2 u2 c1 c2" "sem a3 u3 c2 c3" "sem a4 u4 c3 c4" "sem a5 u5 c4 c5"
    "sem a6 u6 c5 c6" "sem a7 u7 c6 c7" "sem a8 u8 c7 c8" "sem a9 u9 c8 c9" "sem a10 u10 c9 c10"
  using assms unfolding seqs.simps sem_Seq_iff by blast

lemma sem_Opt_Lit: "sem (Opt (Lit s)) u c c' \<Longrightarrow> (u = s \<or> u = []) \<and> c' = c"
  unfolding sem_Opt_iff sem_Lit_iff by blast

lemma sem_segment:
  assumes "sem (Opt (Seq (Plus (Cls False [(CHR ''a'', CHR ''z''), (CHR ''A'', CHR ''Z''), (CHR ''0'', CHR ''9''),
                                 (CHR ''.'', CHR ''.''), (CHR ''_'', CHR ''_''), (CHR ''-'', CHR ''-'')]))
               (Lit ''/''))) u c c'"
  shows "c' = c \<and> (u = [] \<or> (\<exists>s. u = s @ ''/'' \<and> s \<noteq> [] \<and> (\<forall>x\<in>set s. seg_char x)))"
proof -
  from assms consider "u = []" "c' = c"
    | s t c1 where "u = s @ t" "sem (Plus (Cls False [(CHR ''a'', CHR ''z''), (CHR ''A'', CHR ''Z''), (CHR ''0'', CHR ''9''),
                                 (CHR ''.'', CHR ''.''), (CHR ''_'', CHR ''_''), (CHR ''-'', CHR ''-'')])) s c c1"
        "sem (Lit ''/'') t c1 c'"
    unfolding sem_Opt_iff[of "Seq _ _"] sem_Seq_iff[of "Seq _ _" "Lit _"] by blast
  then show ?thesis
  proof cases
    case 1
    then show ?thesis by simp
  next
    case 2
    from sem_Plus_Cls[OF 2(2)] 2(1,3) show ?thesis
      unfolding seg_class sem_Lit_iff by auto
  qed
qed

lemma sem_token:
  assumes "sem (Grp (Plus (Cls False [(CHR ''a'', CHR ''z''), (CHR ''A'', CHR ''Z''), (CHR ''0'', CHR ''9''),
                            (CHR ''_'', CHR ''_''), (CHR ''-'', CHR ''-'')]))) u c c'"
  shows "c' = Some u \<and> u \<noteq> [] \<and> (\<forall>x\<in>set u. tok_char x)"
proof -
  from assms obtain c1 where "c' = Some u"
     "sem (Plus (Cls False [(CHR ''a'', CHR ''z''), (CHR ''A'', CHR ''Z''), (CHR ''0'', CHR ''9''),
                            (CHR ''_'', CHR ''_''), (CHR ''-'', CHR ''-'')])) u c c1"
    unfolding sem_Grp_iff by blast
  with sem_Plus_Cls[OF this(2)] show ?thesis unfolding tok_class by auto
qed

lemma sem_query:
  assumes "sem (Opt (Seq (Lit ''/?'') (Star (Cls True [(CHR '' '', CHR '' '')])))) u c c'"
  shows "c' = c \<and> (u = [] \<or> (\<exists>q. u = ''/?'' @ q \<and> CHR '' '' \<notin> set q))"
proof -
  from assms consider "u = []" "c' = c"
    | s t c1 where "u = s @ t" "sem (Lit ''/?'') s c c1" "sem (Star (Cls True [(CHR '' '', CHR '' '')])) t c1 c'"
    unfolding sem_Opt_iff[of "Seq _ _"] sem_Seq_iff[of "Lit _"] by blast
  then show ?thesis
  proof cases
    case 1
    then show ?thesis by simp
  next
    case 2
    from sem_Star_Cls[OF 2(3) refl] 2(1,2) show ?thesis
      unfolding space_class sem_Lit_iff by auto
  qed
qed

lemma sem_pattern_reel_url:
  assumes "sem INSTAGRAM_REEL_PATTERN w None c'"
  shows "\<exists>tok. c' = Some tok \<and> reel_url w tok"
proof -
  from assms[unfolded INSTAGRAM_REEL_PATTERN_def]
  obtain u1 u2 u3 u4 u5 u6 u7 u8 u9 u10 c1 c2 c3 c4 c5 c6 c7 c8 c9 where
    w: "w = u1 @ u2 @ u3 @ u4 @ u5 @ u6 @ u7 @ u8 @ u9 @ u10" and
    s: "sem (Lit ''http'') u1 None c1" "sem (Opt (Lit ''s'')) u2 c1 c2" "sem (Lit ''://'') u3 c2 c3"
       "sem (Opt (Lit ''www.'')) u4 c3 c4" "sem (Lit ''instagram.com/'') u5 c4 c5"
       "sem (Lit ''reel/'') u7 c6 c7" "sem (Opt (Lit ''/'')) u10 c9 c'" and
    s6: "sem (Opt (Seq (Plus (Cls False [(CHR ''a'', CHR ''z''), (CHR ''A'', CHR ''Z''), (CHR ''0'', CHR ''9''),
                                 (CHR ''.'', CHR ''.''), (CHR ''_'', CHR ''_''), (CHR ''-'', CHR ''-'')]))
               (Lit ''/''))) u6 c5 c6" and
    s8: "sem (Grp (Plus (Cls False [(CHR ''a'', CHR ''z''), (CHR ''A'', CHR ''Z''), (CHR ''0'', CHR ''9''),
                            (CHR ''_'', CHR ''_''), (CHR ''-'', CHR ''-'')]))) u8 c7 c8" and
    s9: "sem (Opt (Seq (Lit ''/?'') (Star (Cls True [(CHR '' '', CHR '' '')])))) u9 c8 c9"
    by (rule sem_seqs10)
  from s(1,3,5,6) have lits: "u1 = ''http''" "u3 = ''://''" "u5 = ''instagram.com/''" "u7 = ''reel/''"
    unfolding sem_Lit_iff by simp_all
  from sem_Opt_Lit[OF s(2)] sem_Opt_Lit[OF s(4)] sem_Opt_Lit[OF s(7)]
  have opts: "u2 = ''s'' \<or> u2 = []" "u4 = ''www.'' \<or> u4 = []" "u10 = ''/'' \<or> u10 = []" "c' = c9"
    by simp_all
  from sem_token[OF s8] have tok: "c8 = Some u8" "u8 \<noteq> []" "\<forall>x\<in>set u8. tok_char x" by simp_all
  from sem_query[OF s9] have q: "c9 = c8" "u9 = [] \<or> (\<exists>q. u9 = ''/?'' @ q \<and> CHR '' '' \<notin> set q)"
    by simp_all
  from sem_segment[OF s6] have seg: "u6 = [] \<or> (\<exists>s. u6 = s @ ''/'' \<and> s \<noteq> [] \<and> (\<forall>x\<in>set s. seg_char x))"
    by simp
  have "reel_url w u8"
    unfolding reel_url_def
    apply (rule exI[of _ "u1 @ u2"], rule exI[of _ u4], rule exI[of _ u6], rule exI[of _ u9], rule exI[of _ u10])
    using w lits opts tok q seg by auto
  with opts(4) q(1) tok(1) show ?thesis by simp
qed

declare in_ranges.simps [simp del]

declare seg_class [simp] tok_class [simp] space_class [simp]

lemma star_Nil: "matches (Star (Cls neg rs)) [] c = [([], c)]"
  by (simp add: matches.simps(5))

lemma star_Cons_in:
  "in_ranges rs x \<noteq> neg \<Longrightarrow>
   matches (Star (Cls neg rs)) (x # xs) c = matches (Star (Cls neg rs)) xs c @ [(x # xs, c)]"
  by (simp add: matches.simps(5)[of _ "x # xs"])

lemma star_Cons_out:
  "in_ranges rs x = neg \<Longrightarrow> matches (Star (Cls neg rs)) (x # xs) c = [(x # xs, c)]"
  by (simp add: matches.simps(5)[of _ "x # xs"])

lemma star_stop:
  "rest = [] \<or> in_ranges rs (hd rest) = neg \<Longrightarrow> matches (Star (Cls neg rs)) rest c = [(rest, c)]"
  by (cases rest) (auto simp: star_Nil star_Cons_out)

lemma star_first:
  assumes "\<forall>x\<in>set t. in_ranges rs x \<noteq> neg" "rest = [] \<or> in_ranges rs (hd rest) = neg"
  shows "\<exists>ys. matches (Star (Cls neg rs)) (t @ rest) c = (rest, c) # ys"
  using assms(1)
proof (induction t)
  case Nil
  then show ?case using star_stop[OF assms(2)] by simp
next
  case (Cons x t)
  then obtain ys where "matches (Star (Cls neg rs)) (t @ rest) c = (rest, c) # ys" by auto
  moreover from Cons.prems have "in_ranges rs x \<noteq> neg" by simp
  ultimately show ?case by (simp add: star_Cons_in)
qed

lemma plus_first:
  assumes "t \<noteq> []" "\<forall>x\<in>set t. in_ranges rs x \<noteq> neg" "rest = [] \<or> in_ranges rs (hd rest) = neg"
  shows "\<exists>ys. matches (Plus (Cls neg rs)) (t @ rest) c = (rest, c) # ys"
proof -
  from assms(1) obtain x t' where t: "t = x # t'" by (cases t) auto
  with assms(2) have x: "in_ranges rs x \<noteq> neg" and t': "\<forall>x\<in>set t'. in_ranges rs x \<noteq> neg" by auto
  from star_first[OF t' assms(3)] obtain ys where
    "matches (Star (Cls neg rs)) (t' @ rest) c = (rest, c) # ys" by blast
  with x t show ?thesis by simp
qed

lemma plus_fail:
  "inp = [] \<or> in_ranges rs (hd inp) = neg \<Longrightarrow> matches (Plus (Cls neg rs)) inp c = []"
  by (cases inp) auto

lemma grp_first:
  assumes "matches a (t @ rest) c = (rest, c1) # ys"
  shows "\<exists>zs. matches (Grp a) (t @ rest) c = (rest, Some t) # zs"
  using assms by simp

lemma seq_first:
  assumes "matches a inp c = (r1, c1) # ys" "matches b r1 c1 = z # zs"
  shows "\<exists>ws. matches (Seq a b) inp c = z # ws"
  using assms by simp

lemma opt_first:
  assumes "matches a inp c = z # zs"
  shows "\<exists>ws. matches (Opt a) inp c = z # ws"
  using assms by simp

lemma pattern_split:
  "INSTAGRAM_REEL_PATTERN =
     Seq (Lit ''http'') (Seq (Opt (Lit ''s'')) (Seq (Lit ''://'') (Seq (Opt (Lit ''www.''))
       (Seq (Lit ''instagram.com/'') segment_rx))))"
  by (simp add: INSTAGRAM_REEL_PATTERN_def segment_rx_def tail_rx_def)

lemma query_slash_first:
  assumes "query = [] \<or> (\<exists>q. query = ''/?'' @ q \<and> CHR '' '' \<notin> set q)"
    and "slash = [] \<or> slash = ''/''"
  shows "\<exists>ys. matches (Seq (Opt (Seq (Lit ''/?'') (Star not_space))) (Opt (Lit ''/''))) (query @ slash) c
           = ([], c) # ys"
proof (cases "query = []")
  case True
  with assms(2) show ?thesis by auto
next
  case False
  with assms(1) obtain q where q: "query = ''/?'' @ q" "CHR '' '' \<notin> set q" by blast
  have "\<forall>x\<in>set (q @ slash). in_ranges [(CHR '' '', CHR '' '')] x \<noteq> True"
    using q(2) assms(2) by auto
  from star_first[OF this, of "[]" c] obtain ys where
    "matches (Star not_space) (q @ slash) c = ([], c) # ys" by auto
  then show ?thesis using q(1) by simp
qed

lemma tail_first:
  assumes "tok \<noteq> []" "\<forall>x\<in>set tok. tok_char x"
    and "query = [] \<or> (\<exists>q. query = ''/?'' @ q \<and> CHR '' '' \<notin> set q)"
    and "slash = [] \<or> slash = ''/''"
  shows "\<exists>ys. matches tail_rx (tok @ query @ slash) c = ([], Some tok) # ys"
proof -
  have stop: "query @ slash = [] \<or>
      in_ranges [(CHR ''a'', CHR ''z''), (CHR ''A'', CHR ''Z''), (CHR ''0'', CHR ''9''),
                 (CHR ''_'', CHR ''_''), (CHR ''-'', CHR ''-'')] (hd (query @ slash)) = False"
    using assms(3,4) by (auto simp: tok_char_def)
  have "\<forall>x\<in>set tok. in_ranges [(CHR ''a'', CHR ''z''), (CHR ''A'', CHR ''Z''), (CHR ''0'', CHR ''9''),
                 (CHR ''_'', CHR ''_''), (CHR ''-'', CHR ''-'')] x \<noteq> False"
    using assms(2) by simp
  from plus_first[OF assms(1) this stop] obtain ys where
    "matches (Plus tok_class) (tok @ query @ slash) c = (query @ slash, c) # ys" by blast
  from grp_first[OF this] obtain zs where
    g: "matches (Grp (Plus tok_class)) (tok @ query @ slash) c = (query @ slash, Some tok) # zs" by blast
  from query_slash_first[OF assms(3,4)] obtain ws where
    q: "matches (Seq (Opt (Seq (Lit ''/?'') (Star not_space))) (Opt (Lit ''/''))) (query @ slash) (Some tok)
           = ([], Some tok) # ws" by blast
  from seq_first[OF g q] show ?thesis by (simp add: tail_rx_def)
qed

lemma reel_tail_fail:
  assumes "tok \<noteq> []" "\<forall>x\<in>set tok. tok_char x"
    and "query = [] \<or> (\<exists>q. query = ''/?'' @ q \<and> CHR '' '' \<notin> set q)"
    and "slash = [] \<or> slash = ''/''"
  shows "matches (Seq (Lit ''reel/'') tail_rx) (tok @ query @ slash) c = []"
proof (cases "lit ''reel/'' (tok @ query @ slash)")
  case None
  then show ?thesis by simp
next
  case (Some z)
  then have eq: "tok @ query @ slash = ''reel/'' @ z" by (rule lit_Some)
  have Q: "takeWhile tok_char (query @ slash) = []"
    using assms(3,4) by (auto simp: tok_char_def)
  have "takeWhile tok_char (tok @ query @ slash) = tok"
    using assms(2) Q by (simp add: takeWhile_append2)
  moreover have "takeWhile tok_char (''reel/'' @ z) = ''reel''"
    by (simp add: tok_char_def)
  ultimately have tok: "tok = ''reel''" using eq by simp
  with eq have "query @ slash = CHR ''/'' # z" by simp
  with assms(3,4) have "z = [] \<or> hd z = CHR ''?''" by auto
  then have "z = [] \<or> in_ranges [(CHR ''a'', CHR ''z''), (CHR ''A'', CHR ''Z''), (CHR ''0'', CHR ''9''),
                 (CHR ''_'', CHR ''_''), (CHR ''-'', CHR ''-'')] (hd z) = False"
    by (auto simp: tok_char_def)
  from plus_fail[OF this] have "matches tail_rx z c = []"
    by (simp add: tail_rx_def)
  with Some show ?thesis by simp
qed

lemma segment_first:
  assumes "seg = [] \<or> (\<exists>s. seg = s @ ''/'' \<and> s \<noteq> [] \<and> (\<forall>x\<in>set s. seg_char x))"
    and "tok \<noteq> []" "\<forall>x\<in>set tok. tok_char x"
    and "query = [] \<or> (\<exists>q. query = ''/?'' @ q \<and> CHR '' '' \<notin> set q)"
    and "slash = [] \<or> slash = ''/''"
  shows "\<exists>ys. matches segment_rx (seg @ ''reel/'' @ tok @ query @ slash) c = ([], Some tok) # ys"
proof -
  from tail_first[OF assms(2-5)] obtain ys where
    tl: "matches tail_rx (tok @ query @ slash) c = ([], Some tok) # ys" by blast
  show ?thesis
  proof (cases "seg = []")
    case True
    have "matches (Opt (Seq (Plus seg_class) (Lit ''/''))) (''reel/'' @ tok @ query @ slash) c =
            [(tok @ query @ slash, c), (''reel/'' @ tok @ query @ slash, c)]"
      by (simp add: star_Cons_in star_Cons_out seg_char_def)
    then have "matches segment_rx (''reel/'' @ tok @ query @ slash) c =
            matches (Seq (Lit ''reel/'') tail_rx) (tok @ query @ slash) c @
            matches (Seq (Lit ''reel/'') tail_rx) (''reel/'' @ tok @ query @ slash) c"
      unfolding segment_rx_def matches.simps(3)[of "Opt _"] by simp
    also have "\<dots> = matches tail_rx (tok @ query @ slash) c"
      unfolding reel_tail_fail[OF assms(2-5)] by simp
    finally show ?thesis using tl True by simp
  next
    case False
    with assms(1) obtain s where s: "seg = s @ ''/''" "s \<noteq> []" "\<forall>x\<in>set s. seg_char x" by blast
    let ?rest = "''/reel/'' @ tok @ query @ slash"
    have "\<forall>x\<in>set s. in_ranges [(CHR ''a'', CHR ''z''), (CHR ''A'', CHR ''Z''), (CHR ''0'', CHR ''9''),
                           (CHR ''.'', CHR ''.''), (CHR ''_'', CHR ''_''), (CHR ''-'', CHR ''-'')] x \<noteq> False"
      using s(3) by simp
    moreover have "?rest = [] \<or> in_ranges [(CHR ''a'', CHR ''z''), (CHR ''A'', CHR ''Z''), (CHR ''0'', CHR ''9''),
                           (CHR ''.'', CHR ''.''), (CHR ''_'', CHR ''_''), (CHR ''-'', CHR ''-'')] (hd ?rest) = False"
      by (simp add: seg_char_def)
    ultimately obtain zs where
      p: "matches (Plus seg_class) (s @ ?rest) c = (?rest, c) # zs"
      using plus_first[OF s(2)] by blast
    have l: "matches (Lit ''/'') ?rest c = [(''reel/'' @ tok @ query @ slash, c)]" by simp
    from seq_first[OF p l] obtain ws where
      "matches (Seq (Plus seg_class) (Lit ''/'')) (s @ ?rest) c = (''reel/'' @ tok @ query @ slash, c) # ws"
      by blast
    from opt_first[OF this] obtain vs where
      o: "matches (Opt (Seq (Plus seg_class) (Lit ''/''))) (s @ ?rest) c =
            (''reel/'' @ tok @ query @ slash, c) # vs" by blast
    have "matches (Seq (Lit ''reel/'') tail_rx) (''reel/'' @ tok @ query @ slash) c = ([], Some tok) # ys"
      using tl by simp
    from seq_first[OF o this] show ?thesis using s(1) by (simp add: segment_rx_def)
  qed
qed

lemma pattern_prefix:
  assumes "scheme = ''http'' \<or> scheme = ''https''" "www = [] \<or> www = ''www.''"
  shows "matches INSTAGRAM_REEL_PATTERN (scheme @ ''://'' @ www @ ''instagram.com/'' @ x) c =
         matches segment_rx x c"
  using assms unfolding pattern_split by auto

lemma reel_url_first:
  assumes "reel_url w tok"
  shows "\<exists>ys. matches INSTAGRAM_REEL_PATTERN w None = ([], Some tok) # ys"
proof -
  from assms obtain scheme www seg query slash where
    w: "w = scheme @ ''://'' @ www @ ''instagram.com/'' @ seg @ ''reel/'' @ tok @ query @ slash" and
    pre: "scheme = ''http'' \<or> scheme = ''https''" "www = [] \<or> www = ''www.''" and
    rest: "seg = [] \<or> (\<exists>s. seg = s @ ''/'' \<and> s \<noteq> [] \<and> (\<forall>x\<in>set s. seg_char x))"
      "tok \<noteq> []" "\<forall>x\<in>set tok. tok_char x"
      "query = [] \<or> (\<exists>q. query = ''/?'' @ q \<and> CHR '' '' \<notin> set q)"
      "slash = [] \<or> slash = ''/''"
    unfolding reel_url_def by blast
  show ?thesis
    unfolding w pattern_prefix[OF pre] by (rule segment_first[OF rest])
qed

lemma lit_space:
  "CHR '' '' \<notin> set s \<Longrightarrow> lit s (x @ CHR '' '' # y) = map_option (\<lambda>r. r @ CHR '' '' # y) (lit s x)"
  by (induction s arbitrary: x) (auto split: list.splits)

lemma matches_space:
  "nospace a \<Longrightarrow>
   matches a (x @ CHR '' '' # y) c = map (\<lambda>(r, c'). (r @ CHR '' '' # y, c')) (matches a x c)"
proof (induction a x c rule: matches.induct)
  case (1 s inp c)
  then show ?case by (simp add: lit_space split: option.splits)
next
  case (2 neg rs inp c)
  then show ?case by (cases inp) auto
next
  case (3 a b inp c)
  have "matches (Seq a b) (inp @ CHR '' '' # y) c =
        concat (map (\<lambda>(r, c'). matches b (r @ CHR '' '' # y) c') (matches a inp c))"
    using 3 by (simp add: comp_def case_prod_unfold)
  also have "\<dots> = concat (map (\<lambda>(r, c'). map (\<lambda>(r, c'). (r @ CHR '' '' # y, c')) (matches b r c'))
                      (matches a inp c))"
    using 3 by (intro arg_cong[where f=concat] map_cong) auto
  also have "\<dots> = map (\<lambda>(r, c'). (r @ CHR '' '' # y, c')) (matches (Seq a b) inp c)"
    by (simp add: map_concat comp_def case_prod_unfold)
  finally show ?case .
next
  case (4 a inp c)
  then show ?case by simp
next
  case (5 a inp c)
  let ?f = "\<lambda>(r, c'). (r @ CHR '' '' # y, c')"
  have "matches (Star a) (inp @ CHR '' '' # y) c =
        concat (map (\<lambda>(r, c'). if length r < length inp then matches (Star a) (r @ CHR '' '' # y) c' else [])
                 (matches a inp c)) @ [(inp @ CHR '' '' # y, c)]"
    using "5.IH"(1) "5.prems"
    by (simp add: matches.simps(5)[of a "inp @ _"] comp_def case_prod_unfold cong: if_cong)
  also have "concat (map (\<lambda>(r, c'). if length r < length inp then matches (Star a) (r @ CHR '' '' # y) c' else [])
                 (matches a inp c)) =
      concat (map (\<lambda>(r, c'). map ?f (if length r < length inp then matches (Star a) r c' else []))
                 (matches a inp c))"
    using 5 by (intro arg_cong[where f=concat] map_cong) auto
  also have "\<dots> @ [(inp @ CHR '' '' # y, c)] = map ?f (matches (Star a) inp c)"
    by (simp add: matches.simps(5)[of a inp] map_concat comp_def case_prod_unfold)
  finally show ?case .
next
  case (6 a inp c)
  have "\<And>r c1. (r, c1) \<in> set (matches a inp c) \<Longrightarrow>
          take (length (inp @ CHR '' '' # y) - length (r @ CHR '' '' # y)) (inp @ CHR '' '' # y) =
          take (length inp - length r) inp"
  proof -
    fix r c1 assume "(r, c1) \<in> set (matches a inp c)"
    from matches_sound[OF this] obtain w where "inp = w @ r" by blast
    then show "take (length (inp @ CHR '' '' # y) - length (r @ CHR '' '' # y)) (inp @ CHR '' '' # y) =
          take (length inp - length r) inp" by simp
  qed
  with 6 show ?case by (auto simp: comp_def case_prod_unfold)
qed

declare findall.simps [simp del]

lemma re_match_space:
  "nospace r \<Longrightarrow>
   re_match r (x @ CHR '' '' # y) = map_option (\<lambda>(rest, c). (rest @ CHR '' '' # y, c)) (re_match r x)"
  by (simp add: re_match_def matches_space split: list.splits)

lemma findall_space:
  "nospace r \<Longrightarrow> findall r (x @ CHR '' '' # y) = findall r x @ findall r y"
proof (induction r x rule: findall.induct)
  case (1 r inp)
  note m = re_match_space[OF "1.prems", of inp y]
  show ?case
  proof (cases "re_match r inp")
    case None
    show ?thesis
    proof (cases inp)
      case Nil
      with None m show ?thesis
        by (simp add: findall.simps[of r "[]"] findall.simps[of r "CHR '' '' # y"])
    next
      case (Cons a as)
      from "1.IH"(1)[OF None Cons "1.prems"] None m Cons show ?thesis
        by (simp add: findall.simps[of r "a # as"] findall.simps[of r "a # as @ CHR '' '' # y"])
    qed
  next
    case (Some p)
    obtain rest c where p: "p = (rest, c)" by (cases p)
    show ?thesis
    proof (cases "length rest < length inp")
      case True
      from "1.IH"(2)[OF Some p[symmetric] True "1.prems"] Some p m True show ?thesis
        by (simp add: findall.simps[of r inp] findall.simps[of r "inp @ CHR '' '' # y"])
    next
      case False
      show ?thesis
      proof (cases inp)
        case Nil
        with Some p m False show ?thesis
          by (simp add: findall.simps[of r "[]"] findall.simps[of r "CHR '' '' # y"])
      next
        case (Cons a as)
        from "1.IH"(3)[OF Some p[symmetric] False Cons "1.prems"] Some p m False Cons show ?thesis
          by (simp add: findall.simps[of r "a # as"] findall.simps[of r "a # as @ CHR '' '' # y"])
      qed
    qed
  qed
qed

subsection \<open>The matcher against the grammar\<close>

lemma fullmatch_reel_url:
  assumes "reel_url w tok"
  shows "fullmatch INSTAGRAM_REEL_PATTERN w = Some (Some tok)"
proof -
  from reel_url_first[OF assms] obtain ys where
    "matches INSTAGRAM_REEL_PATTERN w None = ([], Some tok) # ys" by blast
  then show ?thesis by (simp add: fullmatch_def)
qed

lemma fullmatch_sound:
  assumes "fullmatch INSTAGRAM_REEL_PATTERN w = Some c"
  shows "\<exists>tok. c = Some tok \<and> reel_url w tok"
proof -
  from assms obtain rest ys where
    f: "filter (\<lambda>(rest, c). rest = []) (matches INSTAGRAM_REEL_PATTERN w None) = (rest, c) # ys"
    by (auto simp: fullmatch_def split: list.splits)
  then have "(rest, c) \<in> set (filter (\<lambda>(rest, c). rest = []) (matches INSTAGRAM_REEL_PATTERN w None))"
    by simp
  then have m: "([], c) \<in> set (matches INSTAGRAM_REEL_PATTERN w None)" by auto
  from matches_sound[OF m] have "sem INSTAGRAM_REEL_PATTERN w None c" by simp
  then show ?thesis by (rule sem_pattern_reel_url)
qed

lemma is_link_only_iff_reel_url: "is_link_only text \<longleftrightarrow> (\<exists>tok. reel_url text tok)"
  unfolding is_link_only_def
  using fullmatch_sound fullmatch_reel_url by (metis option.distinct(1) option.exhaust)

lemma reel_url_nonempty: "reel_url w tok \<Longrightarrow> w \<noteq> []"
  unfolding reel_url_def by auto

lemma pattern_no_empty_match: "matches INSTAGRAM_REEL_PATTERN [] None = []"
  by (simp add: INSTAGRAM_REEL_PATTERN_def)

lemma findall_pattern_Nil: "findall INSTAGRAM_REEL_PATTERN [] = []"
  by (simp add: findall.simps[of _ "[]"] re_match_def pattern_no_empty_match)

lemma reel_matches_link:
  assumes "reel_url w tok"
  shows "reel_matches w = [tok]"
proof -
  from reel_url_first[OF assms] obtain ys where
    "matches INSTAGRAM_REEL_PATTERN w None = ([], Some tok) # ys" by blast
  then have "re_match INSTAGRAM_REEL_PATTERN w = Some ([], Some tok)" by (simp add: re_match_def)
  with reel_url_nonempty[OF assms] show ?thesis
    by (simp add: reel_matches_def findall.simps[of _ w] findall_pattern_Nil group1_def)
qed

lemma reel_url_no_space:
  assumes "reel_url w tok"
  shows "CHR '' '' \<notin> set w"
proof -
  from assms obtain scheme www seg query slash where
    w: "w = scheme @ ''://'' @ www @ ''instagram.com/'' @ seg @ ''reel/'' @ tok @ query @ slash" and
    scheme: "scheme = ''http'' \<or> scheme = ''https''" and www: "www = [] \<or> www = ''www.''" and
    seg: "seg = [] \<or> (\<exists>s. seg = s @ ''/'' \<and> s \<noteq> [] \<and> (\<forall>x\<in>set s. seg_char x))" and
    tok: "\<forall>x\<in>set tok. tok_char x" and
    query: "query = [] \<or> (\<exists>q. query = ''/?'' @ q \<and> CHR '' '' \<notin> set q)" and
    slash: "slash = [] \<or> slash = ''/''"
    unfolding reel_url_def by blast
  have "\<not> seg_char CHR '' ''" "\<not> tok_char CHR '' ''" by (simp_all add: seg_char_def tok_char_def)
  with seg tok have "CHR '' '' \<notin> set seg" "CHR '' '' \<notin> set tok" by auto
  moreover from scheme have "CHR '' '' \<notin> set scheme" by auto
  moreover from www have "CHR '' '' \<notin> set www" by auto
  moreover from query have "CHR '' '' \<notin> set query" by auto
  moreover from slash have "CHR '' '' \<notin> set slash" by auto
  ultimately show ?thesis unfolding w by simp
qed

lemma reel_url_http:
  assumes "reel_url w tok"
  shows "\<exists>r. w = ''http'' @ r"
proof -
  from assms obtain scheme r where "w = scheme @ r" "scheme = ''http'' \<or> scheme = ''https''"
    unfolding reel_url_def by blast
  then show ?thesis by auto
qed

lemma reel_url_no_leading:
  assumes "reel_url w tok"
  shows "\<not> reel_url (x # w) tok'"
proof
  assume "reel_url (x # w) tok'"
  from reel_url_http[OF this] reel_url_http[OF assms] show False by auto
qed

lemma nospace_pattern: "nospace INSTAGRAM_REEL_PATTERN"
  by (simp add: INSTAGRAM_REEL_PATTERN_def seg_char_def tok_char_def)

lemma reel_matches_join:
  "reel_matches (join_words ws) = concat (map reel_matches ws)"
proof (induction ws rule: join_words.induct)
  case 1
  show ?case by (simp add: reel_matches_def findall_pattern_Nil)
next
  case (2 w)
  show ?case by simp
next
  case (3 w v vs)
  then show ?case by (simp add: reel_matches_def findall_space[OF nospace_pattern])
qed

section \<open>Properties of the fetcher\<close>

declare download_loop.simps [simp del]

lemma download_loop_stop:
  "\<not> retry_count \<le> MAX_RETRIES \<Longrightarrow>
   download_loop prov shortcode retry_count last_error tr = (Inl (ErrorDownload last_error retry_count), tr)"
  by (simp add: download_loop.simps[of _ _ retry_count])

lemma download_loop_success:
  "retry_count \<le> MAX_RETRIES \<Longrightarrow> attempt (prov retry_count) shortcode = Inr video_path \<Longrightarrow>
   download_loop prov shortcode retry_count last_error tr =
     (Inr video_path, tr @ [(ProviderAttempt shortcode retry_count, True)])"
  by (simp add: download_loop.simps[of _ _ retry_count])

lemma download_loop_failure:
  "retry_count \<le> MAX_RETRIES \<Longrightarrow> attempt (prov retry_count) shortcode = Inl e \<Longrightarrow>
   download_loop prov shortcode retry_count last_error tr =
     download_loop prov shortcode (retry_count + 1)
       (Some (''Unexpected error: '' @ str_exn e @ '' for '' @ shortcode))
       (tr @ [(ProviderAttempt shortcode retry_count, False)] @
          (if retry_count + 1 \<le> MAX_RETRIES then [(Sleep RETRY_DELAY, True)] else []))"
  by (simp add: download_loop.simps[of _ _ retry_count])

lemma download_loop_trace:
  "download_loop p sc rc le tr =
     (fst (download_loop p sc rc le []), tr @ snd (download_loop p sc rc le []))"
proof (induction "nat (MAX_RETRIES + 1 - rc)" arbitrary: rc le tr)
  case 0
  then have "\<not> rc \<le> MAX_RETRIES" by simp
  then show ?case by (simp add: download_loop.simps[of p sc rc])
next
  case (Suc n)
  then have le: "rc \<le> MAX_RETRIES" by simp
  show ?case
  proof (cases "attempt (p rc) sc")
    case (Inr path)
    with le show ?thesis by (simp add: download_loop.simps[of p sc rc])
  next
    case (Inl e)
    from Suc(2) have n: "n = nat (MAX_RETRIES + 1 - (rc + 1))" by simp
    note IH = Suc(1)[OF n]
    let ?le = "Some (''Unexpected error: '' @ str_exn e @ '' for '' @ sc)"
    let ?x = "[(ProviderAttempt sc rc, False)] @
                (if rc + 1 \<le> MAX_RETRIES then [(Sleep RETRY_DELAY, True)] else [])"
    have a: "download_loop p sc rc le tr = download_loop p sc (rc + 1) ?le (tr @ ?x)"
      using le Inl by (simp add: download_loop.simps[of p sc rc _ tr])
    have b: "download_loop p sc rc le [] = download_loop p sc (rc + 1) ?le ?x"
      using le Inl by (simp add: download_loop.simps[of p sc rc _ "[]"])
    show ?thesis
      unfolding a b using IH[of ?le "tr @ ?x"] IH[of ?le ?x] by simp
  qed
qed

lemma download_reel_trace:
  "download_reel p sc tr = (fst (download_reel p sc []), tr @ snd (download_reel p sc []))"
  unfolding download_reel_def by (rule download_loop_trace)

lemma download_loop_calls:
  "\<forall>c\<in>set (snd (download_loop p sc rc le [])). \<not> changes_chat c \<and> \<not> is_delete (fst c) \<and> \<not> is_send_video (fst c)"
proof (induction "nat (MAX_RETRIES + 1 - rc)" arbitrary: rc le)
  case 0
  then have "\<not> rc \<le> MAX_RETRIES" by simp
  then show ?case by (simp add: download_loop.simps[of p sc rc])
next
  case (Suc n)
  then have le: "rc \<le> MAX_RETRIES" by simp
  show ?case
  proof (cases "attempt (p rc) sc")
    case (Inr path)
    with le show ?thesis by (simp add: download_loop.simps[of p sc rc])
  next
    case (Inl e)
    from Suc(2) have n: "n = nat (MAX_RETRIES + 1 - (rc + 1))" by simp
    note IH = Suc(1)[OF n]
    let ?le = "Some (''Unexpected error: '' @ str_exn e @ '' for '' @ sc)"
    let ?x = "[(ProviderAttempt sc rc, False)] @
                (if rc + 1 \<le> MAX_RETRIES then [(Sleep RETRY_DELAY, True)] else [])"
    have b: "download_loop p sc rc le [] = download_loop p sc (rc + 1) ?le ?x"
      using le Inl by (simp add: download_loop.simps[of p sc rc _ "[]"])
    have "snd (download_loop p sc (rc + 1) ?le ?x) = ?x @ snd (download_loop p sc (rc + 1) ?le [])"
      using download_loop_trace[of p sc "rc + 1" ?le ?x] by simp
    with IH[of ?le] show ?thesis unfolding b by auto
  qed
qed

lemma download_reel_calls:
  "c \<in> set (snd (download_reel p sc [])) \<Longrightarrow>
     \<not> changes_chat c \<and> \<not> is_delete (fst c) \<and> \<not> is_send_video (fst c)"
  unfolding download_reel_def using download_loop_calls by blast

lemma download_good_file:
  "download_reel (\<lambda>k. good_file) sc tr =
     (Inr (Joinpath (Path ''temp_downloads'') (sc @ ''.mp4'')), tr @ [(ProviderAttempt sc 1, True)])"
  by (simp add: download_reel_def download_loop.simps[of _ _ 1] MAX_RETRIES_def attempt_def
      good_file_def check_file_def TEMP_DIR_def)

section \<open>Properties of the gate and of the orchestrator\<close>

lemma truthy_iff: "truthy r \<longleftrightarrow> r = Some True"
  by (cases r) auto

lemma rights_loop_required:
  "rights_loop m required_rights \<longleftrightarrow>
     can_send_messages m = Some True \<and> can_send_media_messages m = Some True \<and>
     can_send_other_messages m = Some True"
  by (simp add: required_rights_def getattr_member_def truthy_iff)

lemma try_block_eq:
  "try_block env upd em link_only i reel_id tr =
     (case message upd of
        None \<Rightarrow> (Some (Raised (none_attribute ''chat'')), tr)
      | Some m \<Rightarrow>
          (case chat_action_before env i of
             Some e \<Rightarrow> (Some (Raised e), tr @ [(SendChatAction, False)])
           | None \<Rightarrow>
               (case fst (download_reel (provider env i) reel_id []) of
                  Inl x \<Rightarrow>
                    (Some x, tr @ (SendChatAction, True) # snd (download_reel (provider env i) reel_id []))
                | Inr video_path \<Rightarrow>
                    (case chat_action_after env i of
                       Some e \<Rightarrow>
                         (Some (Raised e),
                          tr @ (SendChatAction, True) # snd (download_reel (provider env i) reel_id []) @
                            [(SendChatAction, False)])
                     | None \<Rightarrow>
                         deliver env em link_only i reel_id video_path
                           (tr @ (SendChatAction, True) # snd (download_reel (provider env i) reel_id []) @
                              [(SendChatAction, True)])))))"
  unfolding try_block_def
  by (subst download_reel_trace) (simp split: option.splits sum.splits)

lemma try_block_fails:
  assumes "fails_before_delivery env upd link_only i reel_id"
  shows "fst (try_block env upd em link_only i reel_id tr) \<noteq> None \<and>
         take (length tr) (snd (try_block env upd em link_only i reel_id tr)) = tr \<and>
         (\<forall>c\<in>set (drop (length tr) (snd (try_block env upd em link_only i reel_id tr))).
            \<not> changes_chat c \<and> \<not> is_delete (fst c))"
proof -
  have d: "\<forall>c\<in>set (snd (download_reel (provider env i) reel_id [])). \<not> changes_chat c \<and> \<not> is_delete (fst c)"
    using download_reel_calls by blast
  from assms d show ?thesis
    unfolding fails_before_delivery_def try_block_eq deliver_def Let_def
    by (auto split: option.splits sum.splits)
qed


lemma deletes_after_skip:
  "\<forall>c\<in>set xs. \<not> is_delete (fst c) \<and> \<not> is_send_video (fst c) \<Longrightarrow>
   deletes_after False (xs @ ys) = deletes_after False ys"
  by (induction xs) auto

lemma deletes_after_append:
  "deletes_after b xs \<Longrightarrow> (\<forall>b'. deletes_after b' ys) \<Longrightarrow> deletes_after b (xs @ ys)"
  by (induction xs arbitrary: b) auto

lemma deliver_segment:
  "\<exists>seg. snd (deliver env em link_only i reel_id video_path tr) = tr @ seg \<and>
         (\<forall>b. deletes_after b seg)"
  by (auto simp: deliver_def log_sent_def Let_def split: option.splits)

lemma try_block_segment:
  "\<exists>seg. snd (try_block env upd em link_only i reel_id tr) = tr @ seg \<and> (\<forall>b. deletes_after b seg)"
proof -
  let ?d = "snd (download_reel (provider env i) reel_id [])"
  have d: "\<And>ys. deletes_after False (?d @ ys) = deletes_after False ys"
    using download_reel_calls by (intro deletes_after_skip) blast
  have dl: "\<And>video_path tr'. \<exists>seg. snd (deliver env em link_only i reel_id video_path tr') = tr' @ seg \<and>
         (\<forall>b. deletes_after b seg)" by (rule deliver_segment)
  show ?thesis
  proof (cases "message upd")
    case None
    then show ?thesis by (simp add: try_block_eq)
  next
    case (Some m)
    show ?thesis
    proof (cases "chat_action_before env i")
      case (Some e)
      with \<open>message upd = Some m\<close> show ?thesis by (simp add: try_block_eq)
    next
      case None
      note cb = this
      show ?thesis
      proof (cases "fst (download_reel (provider env i) reel_id [])")
        case (Inl x)
        have "\<forall>b. deletes_after b ((SendChatAction, True) # ?d)"
          using d[of "[]"] by simp
        with Inl cb \<open>message upd = Some m\<close> show ?thesis by (simp add: try_block_eq)
      next
        case (Inr video_path)
        show ?thesis
        proof (cases "chat_action_after env i")
          case (Some e)
          have "\<forall>b. deletes_after b ((SendChatAction, True) # ?d @ [(SendChatAction, False)])"
            using d[of "[(SendChatAction, False)]"] by simp
          with Some Inr cb \<open>message upd = Some m\<close> show ?thesis by (simp add: try_block_eq)
        next
          case None
          let ?tr' = "tr @ (SendChatAction, True) # ?d @ [(SendChatAction, True)]"
          from dl[of video_path ?tr'] obtain seg where
            seg: "snd (deliver env em link_only i reel_id video_path ?tr') = ?tr' @ seg"
              "\<forall>b. deletes_after b seg" by blast
          have "\<forall>b. deletes_after b ((SendChatAction, True) # ?d @ (SendChatAction, True) # seg)"
            using d[of "(SendChatAction, True) # seg"] seg(2) by simp
          with None Inr cb \<open>message upd = Some m\<close> seg(1) show ?thesis
            by (simp add: try_block_eq)
        qed
      qed
    qed
  qed
qed

lemma reel_iteration_segment:
  "\<exists>seg. snd (reel_iteration env upd em link_only i reel_id tr) = tr @ seg \<and> (\<forall>b. deletes_after b seg)"
proof -
  from try_block_segment[of env upd em link_only i reel_id tr] obtain seg where
    seg: "snd (try_block env upd em link_only i reel_id tr) = tr @ seg" "\<forall>b. deletes_after b seg"
    by blast
  have r: "\<forall>b. deletes_after b (seg @ [(SetReaction (message_id em) THUMBS_DOWN, ok)])" for ok
    using seg(2) by (auto intro: deletes_after_append)
  show ?thesis
  proof (cases "try_block env upd em link_only i reel_id tr")
    case (Pair x tr1)
    with seg(1) have tr1: "tr1 = tr @ seg" by simp
    show ?thesis
      using Pair tr1 seg(2) r
      by (cases x; cases "set_reaction env i") (auto simp: reel_iteration_def)
  qed
qed

lemma for_reel_matches_segment:
  "\<exists>seg. snd (for_reel_matches env upd em link_only i ids tr) = tr @ seg \<and> (\<forall>b. deletes_after b seg)"
proof (induction ids arbitrary: i tr)
  case Nil
  show ?case by simp
next
  case (Cons reel_id ids)
  from reel_iteration_segment[of env upd em link_only i reel_id tr] obtain seg where
    seg: "snd (reel_iteration env upd em link_only i reel_id tr) = tr @ seg" "\<forall>b. deletes_after b seg"
    by blast
  show ?case
  proof (cases "reel_iteration env upd em link_only i reel_id tr")
    case (Pair x tr1)
    with seg(1) have tr1: "tr1 = tr @ seg" by simp
    show ?thesis
    proof (cases x)
      case (Some e)
      with Pair tr1 seg(2) show ?thesis by simp
    next
      case None
      from Cons.IH[of "Suc i" tr1] obtain seg' where
        seg': "snd (for_reel_matches env upd em link_only (Suc i) ids tr1) = tr1 @ seg'"
          "\<forall>b. deletes_after b seg'" by blast
      have "\<forall>b. deletes_after b (seg @ seg')" using seg(2) seg'(2) by (auto intro: deletes_after_append)
      with None Pair tr1 seg'(1) show ?thesis by simp
    qed
  qed
qed

lemma check_bot_permissions_trace:
  "snd (check_bot_permissions env upd) = [] \<or> (\<exists>ok. snd (check_bot_permissions env upd) = [(GetMember, ok)])"
  by (auto simp: check_bot_permissions_def split: option.splits sum.splits)

lemma denied_segment:
  "\<exists>seg. snd (denied env upd em tr) = tr @ seg \<and> (\<forall>b. deletes_after b seg) \<and>
         (\<forall>k ok. (DeleteMessage k, ok) \<notin> set seg)"
  by (auto simp: denied_def split: option.splits)


lemma link_only_one_match:
  assumes "is_link_only content"
  shows "content \<noteq> [] \<and> (\<exists>tok. reel_matches content = [tok])"
proof -
  from assms obtain tok where "reel_url content tok" unfolding is_link_only_iff_reel_url by blast
  from reel_url_nonempty[OF this] reel_matches_link[OF this] show ?thesis by blast
qed

lemma trace_no_delete:
  "\<forall>c\<in>set tr. \<not> is_delete (fst c) \<Longrightarrow> (DeleteMessage k, ok) \<notin> set tr"
  by force

text \<open>
  The loop over the identifiers, cut at the \<open>i\<close>-th one: when the identifiers before it
  leave no exception, the run of the handler is the iteration for the \<open>i\<close>-th identifier
  followed by the loop over the rest.
\<close>

lemma reel_matches_Nil: "reel_matches [] = []"
  by (simp add: reel_matches_def findall_pattern_Nil)

lemma for_reel_matches_append:
  "for_reel_matches env upd em link_only i (xs @ ys) tr =
     (case for_reel_matches env upd em link_only i xs tr of
        (Some e, t) \<Rightarrow> (Some e, t)
      | (None, t) \<Rightarrow> for_reel_matches env upd em link_only (i + length xs) ys t)"
  by (induction xs arbitrary: i tr) (auto split: prod.splits option.splits)

lemma handle_message_reaches:
  assumes "effective_message upd = Some em" and "msg_text em = Some content"
    and "check_bot_permissions env upd = (Inr r, gtr)" and "truthy r"
    and "i < length (reel_matches content)"
    and "for_reel_matches env upd em (is_link_only content) 0 (take i (reel_matches content)) gtr = (None, tr0)"
  shows "handle_message env upd =
     (case reel_iteration env upd em (is_link_only content) i (reel_matches content ! i) tr0 of
        (Some e, t) \<Rightarrow> (Some e, t)
      | (None, t) \<Rightarrow>
          for_reel_matches env upd em (is_link_only content) (Suc i) (drop (Suc i) (reel_matches content)) t)"
proof -
  let ?ids = "reel_matches content"
  from assms(5) have ne: "content \<noteq> []" using reel_matches_Nil by auto
  have h: "handle_message env upd = for_reel_matches env upd em (is_link_only content) 0 ?ids gtr"
    using assms(1-4) ne by (simp add: handle_message_def)
  have sp: "?ids = take i ?ids @ (?ids ! i # drop (Suc i) ?ids)"
    using assms(5) by (simp add: id_take_nth_drop)
  have len: "length (take i ?ids) = i" using assms(5) by simp
  have "for_reel_matches env upd em (is_link_only content) 0 (take i ?ids @ (?ids ! i # drop (Suc i) ?ids)) gtr =
        for_reel_matches env upd em (is_link_only content) i (?ids ! i # drop (Suc i) ?ids) tr0"
    unfolding for_reel_matches_append using assms(6) len by simp
  with sp h have "handle_message env upd =
        for_reel_matches env upd em (is_link_only content) i (?ids ! i # drop (Suc i) ?ids) tr0"
    by simp
  then show ?thesis by simp
qed

lemma reel_iteration_delivery:
  assumes "message upd = Some m" and "chat_action_before env i = None"
    and "download_reel (provider env i) reel_id (tr @ [(SendChatAction, True)]) = (Inr video_path, tr1)"
    and "chat_action_after env i = None"
  shows "reel_iteration env upd em link_only i reel_id tr =
     (if from_user em \<noteq> None \<and>
         (if link_only then send_video env i = None \<and> delete_message env i = None
          else reply_video env i = None)
      then (None,
            tr1 @ [(SendChatAction, True)] @
            (if link_only
             then [(SendVideo video_path (''https://instagram.com/reel/'' @ reel_id), True),
                   (DeleteMessage (message_id em), True)]
             else [(ReplyVideo video_path (message_id em) (''https://instagram.com/reel/'' @ reel_id), True)]))
      else (set_reaction env i,
            tr1 @ [(SendChatAction, True)] @
            (if link_only
             then (SendVideo video_path (''https://instagram.com/reel/'' @ reel_id), send_video env i = None) #
                  (if send_video env i = None
                   then [(DeleteMessage (message_id em), delete_message env i = None)] else [])
             else [(ReplyVideo video_path (message_id em) (''https://instagram.com/reel/'' @ reel_id),
                    reply_video env i = None)]) @
            [(SetReaction (message_id em) THUMBS_DOWN, set_reaction env i = None)]))"
  using assms
  by (auto simp: reel_iteration_def try_block_def deliver_def log_sent_def Let_def split: option.splits)

lemma deliver_reply_no_delete:
  "\<exists>seg. snd (deliver env em False i reel_id video_path tr) = tr @ seg \<and>
         (\<forall>c\<in>set seg. \<not> is_delete (fst c))"
  by (auto simp: deliver_def log_sent_def Let_def split: option.splits)

lemma try_block_reply_no_delete:
  "\<exists>seg. snd (try_block env upd em False i reel_id tr) = tr @ seg \<and>
         (\<forall>c\<in>set seg. \<not> is_delete (fst c))"
proof -
  let ?d = "snd (download_reel (provider env i) reel_id [])"
  have d: "\<forall>c\<in>set ?d. \<not> is_delete (fst c)" using download_reel_calls by blast
  have dl: "\<And>video_path tr'. \<exists>seg. snd (deliver env em False i reel_id video_path tr') = tr' @ seg \<and>
         (\<forall>c\<in>set seg. \<not> is_delete (fst c))" by (rule deliver_reply_no_delete)
  show ?thesis
  proof (cases "message upd")
    case None
    then show ?thesis by (simp add: try_block_eq)
  next
    case (Some m)
    show ?thesis
    proof (cases "chat_action_before env i")
      case (Some e)
      with \<open>message upd = Some m\<close> show ?thesis by (simp add: try_block_eq)
    next
      case None
      note cb = this
      show ?thesis
      proof (cases "fst (download_reel (provider env i) reel_id [])")
        case (Inl x)
        with cb \<open>message upd = Some m\<close> d show ?thesis by (simp add: try_block_eq)
      next
        case (Inr video_path)
        show ?thesis
        proof (cases "chat_action_after env i")
          case (Some e)
          with Inr cb \<open>message upd = Some m\<close> d show ?thesis by (simp add: try_block_eq)
        next
          case None
          let ?tr' = "tr @ (SendChatAction, True) # ?d @ [(SendChatAction, True)]"
          from dl[of video_path ?tr'] obtain seg where
            seg: "snd (deliver env em False i reel_id video_path ?tr') = ?tr' @ seg"
              "\<forall>c\<in>set seg. \<not> is_delete (fst c)" by blast
          have "\<forall>c\<in>set ((SendChatAction, True) # ?d @ (SendChatAction, True) # seg). \<not> is_delete (fst c)"
            using d seg(2) by auto
          with None Inr cb \<open>message upd = Some m\<close> seg(1) show ?thesis
            by (simp add: try_block_eq)
        qed
      qed
    qed
  qed
qed

lemma reel_iteration_reply_no_delete:
  "\<exists>seg. snd (reel_iteration env upd em False i reel_id tr) = tr @ seg \<and>
         (\<forall>c\<in>set seg. \<not> is_delete (fst c))"
proof -
  from try_block_reply_no_delete[of env upd em i reel_id tr] obtain seg where
    seg: "snd (try_block env upd em False i reel_id tr) = tr @ seg" "\<forall>c\<in>set seg. \<not> is_delete (fst c)"
    by blast
  show ?thesis
  proof (cases "try_block env upd em False i reel_id tr")
    case (Pair x tr1)
    with seg(1) have tr1: "tr1 = tr @ seg" by simp
    show ?thesis
      using Pair tr1 seg(2)
      by (cases x; cases "set_reaction env i") (auto simp: reel_iteration_def)
  qed
qed

lemma for_reel_matches_reply_no_delete:
  "\<exists>seg. snd (for_reel_matches env upd em False i ids tr) = tr @ seg \<and>
         (\<forall>c\<in>set seg. \<not> is_delete (fst c))"
proof (induction ids arbitrary: i tr)
  case Nil
  show ?case by simp
next
  case (Cons reel_id ids)
  from reel_iteration_reply_no_delete[of env upd em i reel_id tr] obtain seg where
    seg: "snd (reel_iteration env upd em False i reel_id tr) = tr @ seg" "\<forall>c\<in>set seg. \<not> is_delete (fst c)"
    by blast
  show ?case
  proof (cases "reel_iteration env upd em False i reel_id tr")
    case (Pair x tr1)
    with seg(1) have tr1: "tr1 = tr @ seg" by simp
    show ?thesis
    proof (cases x)
      case (Some e)
      with Pair tr1 seg(2) show ?thesis by simp
    next
      case None
      from Cons.IH[of "Suc i" tr1] obtain seg' where
        seg': "snd (for_reel_matches env upd em False (Suc i) ids tr1) = tr1 @ seg'"
          "\<forall>c\<in>set seg'. \<not> is_delete (fst c)" by blast
      have "\<forall>c\<in>set (seg @ seg'). \<not> is_delete (fst c)" using seg(2) seg'(2) by auto
      with None Pair tr1 seg'(1) show ?thesis by simp
    qed
  qed
qed

lemma handle_message_reply_no_delete:
  assumes "effective_message upd = Some em" and "msg_text em = Some content"
    and "\<not> is_link_only content"
  shows "(DeleteMessage k, ok) \<notin> set (snd (handle_message env upd))"
proof -
  obtain r tr where c: "check_bot_permissions env upd = (r, tr)" by (cases "check_bot_permissions env upd")
  with check_bot_permissions_trace[of env upd] have tr: "\<forall>c\<in>set tr. \<not> is_delete (fst c)" by auto
  from denied_segment[of env upd em tr] obtain s1 where
    s1: "snd (denied env upd em tr) = tr @ s1" "\<forall>k ok. (DeleteMessage k, ok) \<notin> set s1" by blast
  from for_reel_matches_reply_no_delete[of env upd em 0 "reel_matches content" tr] obtain s2 where
    s2: "snd (for_reel_matches env upd em False 0 (reel_matches content) tr) = tr @ s2"
      "\<forall>c\<in>set s2. \<not> is_delete (fst c)" by blast
  have "snd (handle_message env upd) = [] \<or> snd (handle_message env upd) = tr \<or>
        snd (handle_message env upd) = tr @ s1 \<or> snd (handle_message env upd) = tr @ s2"
    using assms c s1(1) s2(1) by (auto simp: handle_message_def split: sum.splits)
  with tr s1(2) s2(2) show ?thesis by (auto dest: trace_no_delete)
qed

lemma try_block_sender:
  assumes "fst (try_block env upd em link_only i reel_id tr) = Some x" and "from_user em \<noteq> None"
  shows "(DeleteMessage k, True) \<notin> set (drop (length tr) (snd (try_block env upd em link_only i reel_id tr)))"
proof -
  have d: "\<forall>c\<in>set (snd (download_reel (provider env i) reel_id [])). \<not> changes_chat c \<and> \<not> is_delete (fst c)"
    using download_reel_calls by blast
  from assms d show ?thesis
    unfolding try_block_eq deliver_def log_sent_def Let_def
    by (auto split: option.splits sum.splits if_splits)
qed

lemma try_block_prefix:
  "take (length tr) (snd (try_block env upd em link_only i reel_id tr)) = tr"
  using try_block_segment[of env upd em link_only i reel_id tr] by auto



section \<open>The claims\<close>

subsection \<open>C1\<close>

text \<open>
  \<^bold>\<open>C1.\<close> For every identifier and every trace so far: if each of the \<open>MAX_RETRIES\<close> (= 3)
  attempts fails, the attempt made with \<open>retry_count = k\<close> raising \<open>e k\<close>, then
  \<^verbatim>\<open>download_reel\<close> raises one \<^verbatim>\<open>ErrorDownload\<close>. It carries the message captured at the last
  attempt, \<^verbatim>\<open>"Unexpected error: <str(e 3)> for <shortcode>"\<close>, and the count
  \<open>MAX_RETRIES + 1\<close> (= 4). The errors of attempts 1 and 2 are not part of the result;
  the trace shows the three attempts and the two delays between them.
\<close>

theorem download_reel_exhausted:
  assumes "\<forall>k. 1 \<le> k \<and> k \<le> MAX_RETRIES \<longrightarrow> attempt (prov k) shortcode = Inl (e k)"
  shows "download_reel prov shortcode tr =
           (Inl (ErrorDownload
                  (Some (''Unexpected error: '' @ str_exn (e MAX_RETRIES) @ '' for '' @ shortcode))
                  (MAX_RETRIES + 1)),
            tr @ [(ProviderAttempt shortcode 1, False), (Sleep RETRY_DELAY, True),
                  (ProviderAttempt shortcode 2, False), (Sleep RETRY_DELAY, True),
                  (ProviderAttempt shortcode 3, False)]) \<and>
         MAX_RETRIES = 3 \<and> MAX_RETRIES + 1 = 4"
proof -
  from assms have a: "attempt (prov 1) shortcode = Inl (e 1)"
    "attempt (prov 2) shortcode = Inl (e 2)" "attempt (prov 3) shortcode = Inl (e 3)"
    by (simp_all add: MAX_RETRIES_def)
  have "download_reel prov shortcode tr =
        download_loop prov shortcode 2
          (Some (''Unexpected error: '' @ str_exn (e 1) @ '' for '' @ shortcode))
          (tr @ [(ProviderAttempt shortcode 1, False), (Sleep RETRY_DELAY, True)])"
    unfolding download_reel_def using download_loop_failure[where prov=prov and retry_count=1, OF _ a(1)] by (simp add: MAX_RETRIES_def)
  also have "\<dots> = download_loop prov shortcode 3
          (Some (''Unexpected error: '' @ str_exn (e 2) @ '' for '' @ shortcode))
          (tr @ [(ProviderAttempt shortcode 1, False), (Sleep RETRY_DELAY, True),
                 (ProviderAttempt shortcode 2, False), (Sleep RETRY_DELAY, True)])"
    using download_loop_failure[where prov=prov and retry_count=2, OF _ a(2)] by (simp add: MAX_RETRIES_def)
  also have "\<dots> = download_loop prov shortcode 4
          (Some (''Unexpected error: '' @ str_exn (e 3) @ '' for '' @ shortcode))
          (tr @ [(ProviderAttempt shortcode 1, False), (Sleep RETRY_DELAY, True),
                 (ProviderAttempt shortcode 2, False), (Sleep RETRY_DELAY, True),
                 (ProviderAttempt shortcode 3, False)])"
    using download_loop_failure[where prov=prov and retry_count=3, OF _ a(3)] by (simp add: MAX_RETRIES_def)
  also have "\<dots> = (Inl (ErrorDownload
                  (Some (''Unexpected error: '' @ str_exn (e 3) @ '' for '' @ shortcode)) 4),
            tr @ [(ProviderAttempt shortcode 1, False), (Sleep RETRY_DELAY, True),
                  (ProviderAttempt shortcode 2, False), (Sleep RETRY_DELAY, True),
                  (ProviderAttempt shortcode 3, False)])"
    by (rule download_loop_stop) (simp add: MAX_RETRIES_def)
  finally show ?thesis by (simp add: MAX_RETRIES_def)
qed

text \<open>
  An instance: the provider does not find the post on attempts 1 and 2 and leaves an
  empty file on attempt 3; the error reports the empty file and the count 4.
\<close>

theorem download_reel_exhausted_witness:
  "download_reel (\<lambda>k. if k = 3 then empty_file else never_found) ''ABC123'' [] =
     (Inl (ErrorDownload (Some (''Unexpected error: '' @ MSG_EMPTY_FILE @ '' for ABC123'')) 4),
      [(ProviderAttempt ''ABC123'' 1, False), (Sleep 2, True),
       (ProviderAttempt ''ABC123'' 2, False), (Sleep 2, True),
       (ProviderAttempt ''ABC123'' 3, False)])"
proof -
  have "\<forall>k. 1 \<le> k \<and> k \<le> MAX_RETRIES \<longrightarrow>
          attempt ((\<lambda>k. if k = 3 then empty_file else never_found) k) ''ABC123'' =
          Inl ((\<lambda>k. if k = 3 then Exn ValueError MSG_EMPTY_FILE
                     else Exn OtherException ''Fetching Post metadata failed.'') k)"
    by (simp add: attempt_def never_found_def empty_file_def check_file_def)
  from download_reel_exhausted[OF this, of "[]"] show ?thesis
    by (simp add: MAX_RETRIES_def RETRY_DELAY_def)
qed

subsection \<open>C2\<close>

text \<open>
  \<^bold>\<open>C2\<close> says that a transport error during the membership lookup is a denial. The source
  catches \<^verbatim>\<open>BadRequest\<close> only. When the lookup of a group chat raises another error (here a
  time-out), \<^verbatim>\<open>check_bot_permissions\<close> returns nothing: the exception leaves it, and leaves
  \<^verbatim>\<open>handle_message\<close> too, before any notice is sent.
\<close>

theorem lookup_error_propagates_counterexample:
  "check_bot_permissions (calm_env\<lparr>get_member := Inl (Exn OtherException ''Timed out'')\<rparr>)
      (as_message (text_message ''hi'' group_chat)) =
     (Inl (Exn OtherException ''Timed out''), [(GetMember, False)]) \<and>
   handle_message (calm_env\<lparr>get_member := Inl (Exn OtherException ''Timed out'')\<rparr>)
      (as_message (text_message ''hi'' group_chat)) =
     (Some (Exn OtherException ''Timed out''), [(GetMember, False)])"
  by (simp add: check_bot_permissions_def handle_message_def effective_message_def calm_env_def
      as_message_def text_message_def group_chat_def)

text \<open>
  \<^bold>\<open>C2, amended.\<close> For an update with a chat, the gate equals this case analysis. A private
  chat is authorized and no membership lookup is made. Otherwise one lookup is made.
  When it returns a record: a supergroup whose record has the status administrator is
  authorized whatever the capability flags are; otherwise an administrator record is
  authorized iff \<^verbatim>\<open>can_send_messages\<close>, \<^verbatim>\<open>can_send_media_messages\<close> and
  \<^verbatim>\<open>can_send_other_messages\<close> are all present and true; otherwise a plain member is
  authorized; every other status is denied. When the lookup raises: a \<^verbatim>\<open>BadRequest\<close> is a
  denial, and any other exception is not caught and leaves the gate.
\<close>

theorem check_bot_permissions_cases:
  assumes "effective_chat upd = Some chat"
  shows "(chat_type chat = PRIVATE \<longrightarrow> check_bot_permissions env upd = (Inr (Some True), [])) \<and>
         (chat_type chat \<noteq> PRIVATE \<longrightarrow>
            (\<forall>m. get_member env = Inr m \<longrightarrow>
               (\<exists>r. check_bot_permissions env upd = (Inr r, [(GetMember, True)]) \<and>
                    truthy r =
                      (if chat_type chat = SUPERGROUP \<and> status m = ADMINISTRATOR then True
                       else if is_ChatMemberAdministrator m
                         then can_send_messages m = Some True \<and> can_send_media_messages m = Some True \<and>
                              can_send_other_messages m = Some True
                       else status m = MEMBER))) \<and>
            (\<forall>e. get_member env = Inl e \<longrightarrow>
               check_bot_permissions env upd =
                 (if exn_class_of e = BadRequest then Inr (Some False) else Inl e, [(GetMember, False)])))"
  using assms by (auto simp: check_bot_permissions_def rights_loop_required)

text \<open>
  Instances of every case: a private chat; a supergroup administrator without any flag;
  group administrators without flags, with all three, and with one false; a plain member;
  a member that has left; a \<^verbatim>\<open>BadRequest\<close> from the lookup.
\<close>

theorem check_bot_permissions_cases_witness:
  "check_bot_permissions calm_env (as_message (text_message ''hi'' private_chat)) = (Inr (Some True), []) \<and>
   truthy (Some True) \<and>
   (\<exists>r. check_bot_permissions (calm_env\<lparr>get_member := Inr bare_administrator\<rparr>)
            (as_message (text_message ''hi'' supergroup_chat)) = (Inr r, [(GetMember, True)]) \<and> truthy r) \<and>
   (\<exists>r. check_bot_permissions (calm_env\<lparr>get_member := Inr bare_administrator\<rparr>)
            (as_message (text_message ''hi'' group_chat)) = (Inr r, [(GetMember, True)]) \<and> \<not> truthy r) \<and>
   (\<exists>r. check_bot_permissions (calm_env\<lparr>get_member := Inr full_administrator\<rparr>)
            (as_message (text_message ''hi'' group_chat)) = (Inr r, [(GetMember, True)]) \<and> truthy r) \<and>
   (\<exists>r. check_bot_permissions
            (calm_env\<lparr>get_member := Inr (full_administrator\<lparr>can_send_media_messages := Some False\<rparr>)\<rparr>)
            (as_message (text_message ''hi'' group_chat)) = (Inr r, [(GetMember, True)]) \<and> \<not> truthy r) \<and>
   (\<exists>r. check_bot_permissions calm_env
            (as_message (text_message ''hi'' group_chat)) = (Inr r, [(GetMember, True)]) \<and> truthy r) \<and>
   (\<exists>r. check_bot_permissions (calm_env\<lparr>get_member := Inr (plain_member\<lparr>status := LEFT\<rparr>)\<rparr>)
            (as_message (text_message ''hi'' group_chat)) = (Inr r, [(GetMember, True)]) \<and> \<not> truthy r) \<and>
   check_bot_permissions (calm_env\<lparr>get_member := Inl (Exn BadRequest ''Chat not found'')\<rparr>)
            (as_message (text_message ''hi'' group_chat)) = (Inr (Some False), [(GetMember, False)])"
proof -
  have p: "effective_chat (as_message (text_message ''hi'' private_chat)) = Some private_chat"
    and s: "effective_chat (as_message (text_message ''hi'' supergroup_chat)) = Some supergroup_chat"
    and g: "effective_chat (as_message (text_message ''hi'' group_chat)) = Some group_chat"
    by (simp_all add: as_message_def text_message_def)
  note P = check_bot_permissions_cases[OF p, of calm_env]
  note S = check_bot_permissions_cases[OF s, of "calm_env\<lparr>get_member := Inr bare_administrator\<rparr>"]
  note G1 = check_bot_permissions_cases[OF g, of "calm_env\<lparr>get_member := Inr bare_administrator\<rparr>"]
  note G2 = check_bot_permissions_cases[OF g, of "calm_env\<lparr>get_member := Inr full_administrator\<rparr>"]
  note G3 = check_bot_permissions_cases[OF g,
      of "calm_env\<lparr>get_member := Inr (full_administrator\<lparr>can_send_media_messages := Some False\<rparr>)\<rparr>"]
  note G4 = check_bot_permissions_cases[OF g, of calm_env]
  note G5 = check_bot_permissions_cases[OF g,
      of "calm_env\<lparr>get_member := Inr (plain_member\<lparr>status := LEFT\<rparr>)\<rparr>"]
  note G6 = check_bot_permissions_cases[OF g,
      of "calm_env\<lparr>get_member := Inl (Exn BadRequest ''Chat not found'')\<rparr>"]
  from P have 1: "check_bot_permissions calm_env (as_message (text_message ''hi'' private_chat)) = (Inr (Some True), [])"
    by (simp add: private_chat_def)
  from S have 2: "\<exists>r. check_bot_permissions (calm_env\<lparr>get_member := Inr bare_administrator\<rparr>)
            (as_message (text_message ''hi'' supergroup_chat)) = (Inr r, [(GetMember, True)]) \<and> truthy r"
    by (simp add: supergroup_chat_def bare_administrator_def calm_env_def)
  from G1 have 3: "\<exists>r. check_bot_permissions (calm_env\<lparr>get_member := Inr bare_administrator\<rparr>)
            (as_message (text_message ''hi'' group_chat)) = (Inr r, [(GetMember, True)]) \<and> \<not> truthy r"
    by (simp add: group_chat_def bare_administrator_def calm_env_def)
  from G2 have 4: "\<exists>r. check_bot_permissions (calm_env\<lparr>get_member := Inr full_administrator\<rparr>)
            (as_message (text_message ''hi'' group_chat)) = (Inr r, [(GetMember, True)]) \<and> truthy r"
    by (simp add: group_chat_def full_administrator_def calm_env_def)
  from G3 have 5: "\<exists>r. check_bot_permissions
            (calm_env\<lparr>get_member := Inr (full_administrator\<lparr>can_send_media_messages := Some False\<rparr>)\<rparr>)
            (as_message (text_message ''hi'' group_chat)) = (Inr r, [(GetMember, True)]) \<and> \<not> truthy r"
    by (simp add: group_chat_def full_administrator_def calm_env_def)
  from G4 have 6: "\<exists>r. check_bot_permissions calm_env
            (as_message (text_message ''hi'' group_chat)) = (Inr r, [(GetMember, True)]) \<and> truthy r"
    by (simp add: group_chat_def plain_member_def calm_env_def)
  from G5 have 7: "\<exists>r. check_bot_permissions (calm_env\<lparr>get_member := Inr (plain_member\<lparr>status := LEFT\<rparr>)\<rparr>)
            (as_message (text_message ''hi'' group_chat)) = (Inr r, [(GetMember, True)]) \<and> \<not> truthy r"
    by (simp add: group_chat_def plain_member_def calm_env_def)
  from G6 have 8: "check_bot_permissions (calm_env\<lparr>get_member := Inl (Exn BadRequest ''Chat not found'')\<rparr>)
            (as_message (text_message ''hi'' group_chat)) = (Inr (Some False), [(GetMember, False)])"
    by (simp add: group_chat_def calm_env_def)
  from 1 2 3 4 5 6 7 8 show ?thesis by simp
qed

subsection \<open>C3\<close>

text \<open>
  \<^bold>\<open>C3\<close> says that for every successfully fetched identifier the media is sent, and the
  original message is deleted (link-only) or left intact (otherwise). Three runs of the
  handler in which the one identifier of the message is fetched successfully. First
  conjunct: the activity signal that follows the fetch (line 83) raises; nothing is sent.
  Second conjunct: the standalone post goes through and \<^verbatim>\<open>delete\<close> raises; the original
  message is not deleted. Third conjunct: the message is not link-only and has no sender;
  the reply goes through, the log line of lines 100-101 raises, and the original message
  gets the thumbs-down reaction.
\<close>

theorem delivery_not_unconditional_counterexample:
  "handle_message (calm_env\<lparr>chat_action_after := (\<lambda>i. Some (Exn OtherException ''Timed out''))\<rparr>)
      (as_message (text_message ''https://instagram.com/reel/ABC123'' group_chat)) =
     (None,
      [(GetMember, True), (SendChatAction, True), (ProviderAttempt ''ABC123'' 1, True),
       (SendChatAction, False), (SetReaction 7 THUMBS_DOWN, True)]) \<and>
   handle_message (calm_env\<lparr>delete_message := (\<lambda>i. Some (Exn BadRequest ''Message cannot be deleted''))\<rparr>)
      (as_message (text_message ''https://instagram.com/reel/ABC123'' group_chat)) =
     (None,
      [(GetMember, True), (SendChatAction, True), (ProviderAttempt ''ABC123'' 1, True),
       (SendChatAction, True),
       (SendVideo (Joinpath (Path ''temp_downloads'') ''ABC123.mp4'') ''https://instagram.com/reel/ABC123'', True),
       (DeleteMessage 7, False), (SetReaction 7 THUMBS_DOWN, True)]) \<and>
   handle_message calm_env
      (as_message ((text_message ''check this out https://www.instagram.com/reel/XYZ/'' group_chat)
                     \<lparr>from_user := None\<rparr>)) =
     (None,
      [(GetMember, True), (SendChatAction, True), (ProviderAttempt ''XYZ'' 1, True),
       (SendChatAction, True),
       (ReplyVideo (Joinpath (Path ''temp_downloads'') ''XYZ.mp4'') 7 ''https://instagram.com/reel/XYZ'', True),
       (SetReaction 7 THUMBS_DOWN, True)])"
proof -
  have rma: "reel_matches ''https://instagram.com/reel/ABC123'' = [''ABC123'']" by code_simp
  have ila: "is_link_only ''https://instagram.com/reel/ABC123'' = True" by code_simp
  have rmb: "reel_matches ''check this out https://www.instagram.com/reel/XYZ/'' = [''XYZ'']" by code_simp
  have ilb: "is_link_only ''check this out https://www.instagram.com/reel/XYZ/'' = False" by code_simp
  show ?thesis
    by (simp add: handle_message_def effective_message_def as_message_def text_message_def
        check_bot_permissions_def calm_env_def group_chat_def plain_member_def rma ila rmb ilb
        reel_iteration_def try_block_def deliver_def log_sent_def Let_def download_good_file)
qed

text \<open>
  \<^bold>\<open>C3, amended.\<close> A normal message with the text \<open>content\<close> passes the gate, the loop of
  \<^verbatim>\<open>handle_message\<close> reaches the \<open>i\<close>-th identifier of \<open>reel_matches content\<close> (the identifiers
  before it leave the trace \<open>tr0\<close> and no exception), the fetch of that identifier returns
  \<open>video_path\<close>, and the activity signal that follows the fetch returns. Then the run goes on
  with the delivery in the mode that \<open>is_link_only content\<close> selects. For a link-only text
  the next call sends the video as a standalone post with the caption
  \<^verbatim>\<open>https://instagram.com/reel/<identifier>\<close>, and when that call returns the next call
  deletes the original message. Otherwise the next call sends the video as a reply to the
  original message with the same caption. The caption is built from the identifier alone,
  so it never has a leading \<^verbatim>\<open>www.\<close>. When the delivery calls return and the message has a
  sender, nothing else is done for the identifier: the run goes on with the identifiers
  that remain, and a link-only text has none. A text that is not link-only never leads to
  a deletion, whatever else happens in the run.
\<close>

theorem delivery_mode:
  assumes "message upd = Some m" and "msg_text m = Some content"
    and "check_bot_permissions env upd = (Inr r, gtr)" and "truthy r"
    and "i < length (reel_matches content)"
    and "for_reel_matches env upd m (is_link_only content) 0 (take i (reel_matches content)) gtr = (None, tr0)"
    and "chat_action_before env i = None"
    and "download_reel (provider env i) (reel_matches content ! i) (tr0 @ [(SendChatAction, True)]) =
           (Inr video_path, tr1)"
    and "chat_action_after env i = None"
  shows "(\<exists>rest. snd (handle_message env upd) =
            tr1 @ [(SendChatAction, True)] @
            (if is_link_only content
             then (SendVideo video_path (''https://instagram.com/reel/'' @ reel_matches content ! i),
                   send_video env i = None) #
                  (if send_video env i = None
                   then [(DeleteMessage (message_id m), delete_message env i = None)] else [])
             else [(ReplyVideo video_path (message_id m)
                      (''https://instagram.com/reel/'' @ reel_matches content ! i),
                    reply_video env i = None)]) @
            rest) \<and>
         (from_user m \<noteq> None \<and>
          (if is_link_only content then send_video env i = None \<and> delete_message env i = None
           else reply_video env i = None) \<longrightarrow>
            handle_message env upd =
              for_reel_matches env upd m (is_link_only content) (Suc i) (drop (Suc i) (reel_matches content))
                (tr1 @ [(SendChatAction, True)] @
                 (if is_link_only content
                  then [(SendVideo video_path (''https://instagram.com/reel/'' @ reel_matches content ! i), True),
                        (DeleteMessage (message_id m), True)]
                  else [(ReplyVideo video_path (message_id m)
                           (''https://instagram.com/reel/'' @ reel_matches content ! i), True)]))) \<and>
         (is_link_only content \<longrightarrow> reel_matches content = [reel_matches content ! i]) \<and>
         (\<not> is_link_only content \<longrightarrow>
            (\<forall>k ok. (DeleteMessage k, ok) \<notin> set (snd (handle_message env upd))))"
proof -
  let ?L = "is_link_only content"
  let ?ids = "reel_matches content"
  let ?cap = "''https://instagram.com/reel/'' @ ?ids ! i"
  let ?D = "if ?L
             then (SendVideo video_path ?cap, send_video env i = None) #
                  (if send_video env i = None
                   then [(DeleteMessage (message_id m), delete_message env i = None)] else [])
             else [(ReplyVideo video_path (message_id m) ?cap, reply_video env i = None)]"
  let ?ok = "from_user m \<noteq> None \<and>
          (if ?L then send_video env i = None \<and> delete_message env i = None
           else reply_video env i = None)"
  from assms(1) have em: "effective_message upd = Some m" by (simp add: effective_message_def)
  note h = handle_message_reaches[OF em assms(2-6)]
  note it = reel_iteration_delivery[OF assms(1) assms(7) assms(8) assms(9), of m ?L]
  have seg: "\<exists>seg. snd (for_reel_matches env upd m ?L (Suc i) (drop (Suc i) ?ids) t) = t @ seg" for t
    using for_reel_matches_segment[of env upd m ?L "Suc i" "drop (Suc i) ?ids" t] by blast
  have a: "\<exists>rest. snd (handle_message env upd) = tr1 @ [(SendChatAction, True)] @ ?D @ rest"
  proof (cases ?ok)
    case True
    let ?t = "tr1 @ [(SendChatAction, True)] @ ?D"
    from True it have "reel_iteration env upd m ?L i (?ids ! i) tr0 = (None, ?t)"
      by (auto split: if_splits)
    with h have "handle_message env upd = for_reel_matches env upd m ?L (Suc i) (drop (Suc i) ?ids) ?t"
      by simp
    with seg[of ?t] show ?thesis by auto
  next
    case False
    let ?t = "tr1 @ [(SendChatAction, True)] @ ?D @
               [(SetReaction (message_id m) THUMBS_DOWN, set_reaction env i = None)]"
    from False it have r: "reel_iteration env upd m ?L i (?ids ! i) tr0 = (set_reaction env i, ?t)"
      by (simp cong: if_cong)
    show ?thesis
    proof (cases "set_reaction env i")
      case None
      with r h have "handle_message env upd = for_reel_matches env upd m ?L (Suc i) (drop (Suc i) ?ids) ?t"
        by simp
      with seg[of ?t] show ?thesis by auto
    next
      case (Some e)
      with r h have "handle_message env upd = (Some e, ?t)" by simp
      then show ?thesis by auto
    qed
  qed
  have b: "?ok \<longrightarrow> handle_message env upd =
              for_reel_matches env upd m ?L (Suc i) (drop (Suc i) ?ids)
                (tr1 @ [(SendChatAction, True)] @
                 (if ?L then [(SendVideo video_path ?cap, True), (DeleteMessage (message_id m), True)]
                  else [(ReplyVideo video_path (message_id m) ?cap, True)]))"
    using h it by (auto split: if_splits)
  have c: "?L \<longrightarrow> ?ids = [?ids ! i]"
    using link_only_one_match[of content] assms(5) by auto
  have d: "\<not> ?L \<longrightarrow> (\<forall>k ok. (DeleteMessage k, ok) \<notin> set (snd (handle_message env upd)))"
    using handle_message_reply_no_delete[OF em assms(2)] by blast
  from a b c d show ?thesis by blast
qed

text \<open>
  Instances, as runs of \<^verbatim>\<open>handle_message\<close>: scenario A of the specification (the text is
  the link; standalone post, then deletion); scenario B (the link follows other words and
  has \<^verbatim>\<open>www.\<close>; a reply with the caption without it); and a message with two links, for its
  second identifier (two replies, no deletion).
\<close>

theorem delivery_mode_witness:
  "handle_message calm_env (as_message (text_message ''https://instagram.com/reel/ABC123'' group_chat)) =
     (None,
      [(GetMember, True), (SendChatAction, True), (ProviderAttempt ''ABC123'' 1, True),
       (SendChatAction, True),
       (SendVideo (Joinpath (Path ''temp_downloads'') ''ABC123.mp4'') ''https://instagram.com/reel/ABC123'', True),
       (DeleteMessage 7, True)]) \<and>
   handle_message calm_env
      (as_message (text_message ''check this out https://www.instagram.com/reel/XYZ/'' group_chat)) =
     (None,
      [(GetMember, True), (SendChatAction, True), (ProviderAttempt ''XYZ'' 1, True),
       (SendChatAction, True),
       (ReplyVideo (Joinpath (Path ''temp_downloads'') ''XYZ.mp4'') 7 ''https://instagram.com/reel/XYZ'', True)]) \<and>
   handle_message calm_env
      (as_message (text_message ''https://instagram.com/reel/A https://instagram.com/reel/B'' group_chat)) =
     (None,
      [(GetMember, True), (SendChatAction, True), (ProviderAttempt ''A'' 1, True),
       (SendChatAction, True),
       (ReplyVideo (Joinpath (Path ''temp_downloads'') ''A.mp4'') 7 ''https://instagram.com/reel/A'', True),
       (SendChatAction, True), (ProviderAttempt ''B'' 1, True),
       (SendChatAction, True),
       (ReplyVideo (Joinpath (Path ''temp_downloads'') ''B.mp4'') 7 ''https://instagram.com/reel/B'', True)])"
proof -
  let ?ta = "''https://instagram.com/reel/ABC123''"
  let ?tb = "''check this out https://www.instagram.com/reel/XYZ/''"
  let ?tc = "''https://instagram.com/reel/A https://instagram.com/reel/B''"
  let ?a = "text_message ?ta group_chat"
  let ?b = "text_message ?tb group_chat"
  let ?c = "text_message ?tc group_chat"
  let ?tr0 = "[(GetMember, True), (SendChatAction, True), (ProviderAttempt ''A'' 1, True),
       (SendChatAction, True),
       (ReplyVideo (Joinpath (Path ''temp_downloads'') ''A.mp4'') 7 ''https://instagram.com/reel/A'', True)]"
  have rma: "reel_matches ?ta = [''ABC123'']" by code_simp
  have ila: "is_link_only ?ta = True" by code_simp
  have rmb: "reel_matches ?tb = [''XYZ'']" by code_simp
  have ilb: "is_link_only ?tb = False" by code_simp
  have rmc: "reel_matches ?tc = [''A'', ''B'']" by code_simp
  have ilc: "is_link_only ?tc = False" by code_simp
  have ma: "message (as_message ?a) = Some ?a" and mb: "message (as_message ?b) = Some ?b"
    and mc: "message (as_message ?c) = Some ?c"
    by (simp_all add: as_message_def)
  have ta: "msg_text ?a = Some ?ta" and tb: "msg_text ?b = Some ?tb" and tc: "msg_text ?c = Some ?tc"
    by (simp_all add: text_message_def)
  have ga: "check_bot_permissions calm_env (as_message ?a) = (Inr (Some True), [(GetMember, True)])"
    and gb: "check_bot_permissions calm_env (as_message ?b) = (Inr (Some True), [(GetMember, True)])"
    and gc: "check_bot_permissions calm_env (as_message ?c) = (Inr (Some True), [(GetMember, True)])"
    by (simp_all add: check_bot_permissions_def calm_env_def as_message_def text_message_def
        group_chat_def plain_member_def)
  have t: "truthy (Some True)" by simp
  have ia: "0 < length (reel_matches ?ta)" and ib: "0 < length (reel_matches ?tb)"
    and ic: "1 < length (reel_matches ?tc)"
    by (simp_all add: rma rmb rmc)
  have pa: "for_reel_matches calm_env (as_message ?a) ?a (is_link_only ?ta) 0 (take 0 (reel_matches ?ta))
              [(GetMember, True)] = (None, [(GetMember, True)])"
    and pb: "for_reel_matches calm_env (as_message ?b) ?b (is_link_only ?tb) 0 (take 0 (reel_matches ?tb))
              [(GetMember, True)] = (None, [(GetMember, True)])"
    by simp_all
  have pc: "for_reel_matches calm_env (as_message ?c) ?c (is_link_only ?tc) 0 (take 1 (reel_matches ?tc))
              [(GetMember, True)] = (None, ?tr0)"
    by (simp add: rmc ilc reel_iteration_def try_block_def deliver_def log_sent_def Let_def calm_env_def
        as_message_def text_message_def download_good_file)
  have c: "chat_action_before calm_env i = None" "chat_action_after calm_env i = None" for i
    by (simp_all add: calm_env_def)
  have da: "download_reel (provider calm_env 0) (reel_matches ?ta ! 0) ([(GetMember, True)] @ [(SendChatAction, True)]) =
          (Inr (Joinpath (Path ''temp_downloads'') ''ABC123.mp4''),
           [(GetMember, True), (SendChatAction, True), (ProviderAttempt ''ABC123'' 1, True)])"
    and db: "download_reel (provider calm_env 0) (reel_matches ?tb ! 0) ([(GetMember, True)] @ [(SendChatAction, True)]) =
          (Inr (Joinpath (Path ''temp_downloads'') ''XYZ.mp4''),
           [(GetMember, True), (SendChatAction, True), (ProviderAttempt ''XYZ'' 1, True)])"
    and dc: "download_reel (provider calm_env 1) (reel_matches ?tc ! 1) (?tr0 @ [(SendChatAction, True)]) =
          (Inr (Joinpath (Path ''temp_downloads'') ''B.mp4''),
           ?tr0 @ [(SendChatAction, True), (ProviderAttempt ''B'' 1, True)])"
    by (simp_all add: rma rmb rmc calm_env_def download_good_file)
  have s: "send_video calm_env i = None" "delete_message calm_env i = None" "reply_video calm_env i = None" for i
    by (simp_all add: calm_env_def)
  have u: "from_user ?a \<noteq> None" "from_user ?b \<noteq> None" "from_user ?c \<noteq> None"
    "message_id ?a = 7" "message_id ?b = 7" "message_id ?c = 7"
    by (simp_all add: text_message_def)
  from delivery_mode[OF ma ta ga t ia pa c(1) da c(2)] ila rma s u(1,4)
  have A: "handle_message calm_env (as_message ?a) =
     (None,
      [(GetMember, True), (SendChatAction, True), (ProviderAttempt ''ABC123'' 1, True),
       (SendChatAction, True),
       (SendVideo (Joinpath (Path ''temp_downloads'') ''ABC123.mp4'') ''https://instagram.com/reel/ABC123'', True),
       (DeleteMessage 7, True)])"
    by simp
  from delivery_mode[OF mb tb gb t ib pb c(1) db c(2)] ilb rmb s u(2,5)
  have B: "handle_message calm_env (as_message ?b) =
     (None,
      [(GetMember, True), (SendChatAction, True), (ProviderAttempt ''XYZ'' 1, True),
       (SendChatAction, True),
       (ReplyVideo (Joinpath (Path ''temp_downloads'') ''XYZ.mp4'') 7 ''https://instagram.com/reel/XYZ'', True)])"
    by simp
  from delivery_mode[OF mc tc gc t ic pc c(1) dc c(2)] ilc rmc s u(3,6)
  have C: "handle_message calm_env (as_message ?c) =
     (None,
      [(GetMember, True), (SendChatAction, True), (ProviderAttempt ''A'' 1, True),
       (SendChatAction, True),
       (ReplyVideo (Joinpath (Path ''temp_downloads'') ''A.mp4'') 7 ''https://instagram.com/reel/A'', True),
       (SendChatAction, True), (ProviderAttempt ''B'' 1, True),
       (SendChatAction, True),
       (ReplyVideo (Joinpath (Path ''temp_downloads'') ''B.mp4'') 7 ''https://instagram.com/reel/B'', True)])"
    by simp
  from A B C show ?thesis by simp
qed

subsection \<open>C4\<close>

text \<open>
  \<^bold>\<open>C4\<close> says that any exception while handling one identifier sends no media for it,
  leaves the original message unchanged but for the reaction, and does not keep the
  remaining identifiers from being handled. None of the three holds for every exception.
  First conjunct: for a link-only message the post goes through and \<^verbatim>\<open>delete\<close> raises (the
  bot may not delete); the reaction is set although the media was sent. Third conjunct:
  the message holds two links (second conjunct), the fetch of the first fails and
  \<^verbatim>\<open>set_reaction\<close> raises inside the \<^verbatim>\<open>except\<close> block; the exception leaves the handler and
  the second identifier is never tried. Fourth conjunct: a link-only message without a
  sender; the post and the deletion go through, then the log line of lines 100-101
  raises, and the reaction is requested for a message that has been deleted.
\<close>

theorem failure_after_send_counterexample:
  "reel_iteration (calm_env\<lparr>delete_message := (\<lambda>i. Some (Exn BadRequest ''Message cannot be deleted''))\<rparr>)
      (as_message (text_message ''https://instagram.com/reel/ABC123'' group_chat))
      (text_message ''https://instagram.com/reel/ABC123'' group_chat) True 0 ''ABC123'' [] =
     (None,
      [(SendChatAction, True), (ProviderAttempt ''ABC123'' 1, True), (SendChatAction, True),
       (SendVideo (Joinpath (Path ''temp_downloads'') ''ABC123.mp4'') ''https://instagram.com/reel/ABC123'', True),
       (DeleteMessage 7, False), (SetReaction 7 THUMBS_DOWN, True)]) \<and>
   reel_matches ''https://instagram.com/reel/A https://instagram.com/reel/B'' = [''A'', ''B''] \<and>
   handle_message
      (calm_env\<lparr>provider := (\<lambda>i k. never_found),
                set_reaction := (\<lambda>i. Some (Exn BadRequest ''Reaction is invalid''))\<rparr>)
      (as_message (text_message ''https://instagram.com/reel/A https://instagram.com/reel/B'' group_chat)) =
     (Some (Exn BadRequest ''Reaction is invalid''),
      [(GetMember, True), (SendChatAction, True),
       (ProviderAttempt ''A'' 1, False), (Sleep 2, True),
       (ProviderAttempt ''A'' 2, False), (Sleep 2, True),
       (ProviderAttempt ''A'' 3, False), (SetReaction 7 THUMBS_DOWN, False)]) \<and>
   handle_message calm_env
      (as_message ((text_message ''https://instagram.com/reel/ABC123'' group_chat)\<lparr>from_user := None\<rparr>)) =
     (None,
      [(GetMember, True), (SendChatAction, True), (ProviderAttempt ''ABC123'' 1, True),
       (SendChatAction, True),
       (SendVideo (Joinpath (Path ''temp_downloads'') ''ABC123.mp4'') ''https://instagram.com/reel/ABC123'', True),
       (DeleteMessage 7, True), (SetReaction 7 THUMBS_DOWN, True)])"
proof -
  have a: "reel_iteration (calm_env\<lparr>delete_message := (\<lambda>i. Some (Exn BadRequest ''Message cannot be deleted''))\<rparr>)
      (as_message (text_message ''https://instagram.com/reel/ABC123'' group_chat))
      (text_message ''https://instagram.com/reel/ABC123'' group_chat) True 0 ''ABC123'' [] =
     (None,
      [(SendChatAction, True), (ProviderAttempt ''ABC123'' 1, True), (SendChatAction, True),
       (SendVideo (Joinpath (Path ''temp_downloads'') ''ABC123.mp4'') ''https://instagram.com/reel/ABC123'', True),
       (DeleteMessage 7, False), (SetReaction 7 THUMBS_DOWN, True)])"
    by (simp add: reel_iteration_def try_block_def deliver_def Let_def calm_env_def as_message_def
        text_message_def download_good_file)
  have rm: "reel_matches ''https://instagram.com/reel/A https://instagram.com/reel/B'' = [''A'', ''B'']"
    by code_simp
  have il: "is_link_only ''https://instagram.com/reel/A https://instagram.com/reel/B'' = False"
    by code_simp
  have d: "download_reel (\<lambda>k. never_found) ''A'' [(GetMember, True), (SendChatAction, True)] =
      (Inl (ErrorDownload (Some ''Unexpected error: Fetching Post metadata failed. for A'') 4),
       [(GetMember, True), (SendChatAction, True),
       (ProviderAttempt ''A'' 1, False), (Sleep 2, True),
       (ProviderAttempt ''A'' 2, False), (Sleep 2, True),
       (ProviderAttempt ''A'' 3, False)])"
    by (simp add: download_reel_def download_loop.simps[of _ _ 1] download_loop.simps[of _ _ 2]
        download_loop.simps[of _ _ 3] download_loop.simps[of _ _ 4] MAX_RETRIES_def RETRY_DELAY_def
        attempt_def never_found_def)
  have b: "handle_message
      (calm_env\<lparr>provider := (\<lambda>i k. never_found),
                set_reaction := (\<lambda>i. Some (Exn BadRequest ''Reaction is invalid''))\<rparr>)
      (as_message (text_message ''https://instagram.com/reel/A https://instagram.com/reel/B'' group_chat)) =
     (Some (Exn BadRequest ''Reaction is invalid''),
      [(GetMember, True), (SendChatAction, True),
       (ProviderAttempt ''A'' 1, False), (Sleep 2, True),
       (ProviderAttempt ''A'' 2, False), (Sleep 2, True),
       (ProviderAttempt ''A'' 3, False), (SetReaction 7 THUMBS_DOWN, False)])"
    by (simp add: handle_message_def effective_message_def as_message_def text_message_def
        check_bot_permissions_def calm_env_def group_chat_def plain_member_def rm il
        reel_iteration_def try_block_def d)
  have rma: "reel_matches ''https://instagram.com/reel/ABC123'' = [''ABC123'']" by code_simp
  have ila: "is_link_only ''https://instagram.com/reel/ABC123'' = True" by code_simp
  have c: "handle_message calm_env
      (as_message ((text_message ''https://instagram.com/reel/ABC123'' group_chat)\<lparr>from_user := None\<rparr>)) =
     (None,
      [(GetMember, True), (SendChatAction, True), (ProviderAttempt ''ABC123'' 1, True),
       (SendChatAction, True),
       (SendVideo (Joinpath (Path ''temp_downloads'') ''ABC123.mp4'') ''https://instagram.com/reel/ABC123'', True),
       (DeleteMessage 7, True), (SetReaction 7 THUMBS_DOWN, True)])"
    by (simp add: handle_message_def effective_message_def as_message_def text_message_def
        check_bot_permissions_def calm_env_def group_chat_def plain_member_def rma ila
        reel_iteration_def try_block_def deliver_def log_sent_def Let_def download_good_file)
  from a rm b c show ?thesis by simp
qed

text \<open>
  \<^bold>\<open>C4, amended.\<close> Identifiers are handled one after the other. Let a message with the
  text \<open>content\<close> pass the gate, let the loop reach the \<open>i\<close>-th identifier with the trace
  \<open>tr0\<close>, and let the handling of that identifier raise \<open>x\<close>, whatever raises it, leaving the
  trace \<open>tr1\<close>. Then the next call sets the thumbs-down reaction on the original message.
  When that call returns, the run goes on with the remaining identifiers; when it
  raises, its exception leaves the handler. The calls made for the identifier before the
  reaction extend \<open>tr0\<close>. When the failure comes before the media is delivered (there is no
  \<^verbatim>\<open>update.message\<close>, or an activity signal, the fetch, or the send or reply call itself
  raises), none of them changes the chat: no media post or reply went through and no
  deletion. When the message has a sender, no deletion went through among them.
\<close>

theorem failure_isolated:
  assumes "effective_message upd = Some em" and "msg_text em = Some content"
    and "check_bot_permissions env upd = (Inr r, gtr)" and "truthy r"
    and "i < length (reel_matches content)"
    and "for_reel_matches env upd em (is_link_only content) 0 (take i (reel_matches content)) gtr = (None, tr0)"
    and "try_block env upd em (is_link_only content) i (reel_matches content ! i) tr0 = (Some x, tr1)"
  shows "handle_message env upd =
           (if set_reaction env i = None
            then for_reel_matches env upd em (is_link_only content) (Suc i) (drop (Suc i) (reel_matches content))
                   (tr1 @ [(SetReaction (message_id em) THUMBS_DOWN, True)])
            else (set_reaction env i, tr1 @ [(SetReaction (message_id em) THUMBS_DOWN, False)])) \<and>
         (\<exists>seg. tr1 = tr0 @ seg \<and>
            (fails_before_delivery env upd (is_link_only content) i (reel_matches content ! i) \<longrightarrow>
               (\<forall>c\<in>set seg. \<not> changes_chat c)) \<and>
            (from_user em \<noteq> None \<longrightarrow> (\<forall>k. (DeleteMessage k, True) \<notin> set seg)))"
proof -
  let ?L = "is_link_only content"
  let ?id = "reel_matches content ! i"
  note h = handle_message_reaches[OF assms(1-6)]
  have it: "reel_iteration env upd em ?L i ?id tr0 =
      (set_reaction env i, tr1 @ [(SetReaction (message_id em) THUMBS_DOWN, set_reaction env i = None)])"
    using assms(7) by (auto simp: reel_iteration_def split: option.splits)
  have 1: "handle_message env upd =
           (if set_reaction env i = None
            then for_reel_matches env upd em ?L (Suc i) (drop (Suc i) (reel_matches content))
                   (tr1 @ [(SetReaction (message_id em) THUMBS_DOWN, True)])
            else (set_reaction env i, tr1 @ [(SetReaction (message_id em) THUMBS_DOWN, False)]))"
    unfolding h it by (cases "set_reaction env i") simp_all
  let ?seg = "drop (length tr0) tr1"
  from try_block_prefix[of tr0 env upd em ?L i ?id] assms(7) have "take (length tr0) tr1 = tr0" by simp
  then have sp: "tr1 = tr0 @ ?seg" by (metis append_take_drop_id)
  have 2: "fails_before_delivery env upd ?L i ?id \<longrightarrow> (\<forall>c\<in>set ?seg. \<not> changes_chat c)"
    using try_block_fails[of env upd ?L i ?id em tr0] assms(7) by auto
  have 3: "from_user em \<noteq> None \<longrightarrow> (\<forall>k. (DeleteMessage k, True) \<notin> set ?seg)"
    using try_block_sender[of env upd em ?L i ?id tr0 x] assms(7) by auto
  from 1 sp 2 3 show ?thesis by blast
qed

text \<open>
  An instance: two links in one message; the fetch of the first exhausts its retries, the
  second is fetched. The message gets the reaction for the first and a video reply for
  the second.
\<close>

theorem failure_isolated_witness:
  "handle_message (calm_env\<lparr>provider := (\<lambda>i k. if i = 0 then never_found else good_file)\<rparr>)
      (as_message (text_message ''https://instagram.com/reel/A https://instagram.com/reel/B'' group_chat)) =
     (None,
      [(GetMember, True), (SendChatAction, True),
       (ProviderAttempt ''A'' 1, False), (Sleep 2, True),
       (ProviderAttempt ''A'' 2, False), (Sleep 2, True),
       (ProviderAttempt ''A'' 3, False), (SetReaction 7 THUMBS_DOWN, True),
       (SendChatAction, True), (ProviderAttempt ''B'' 1, True), (SendChatAction, True),
       (ReplyVideo (Joinpath (Path ''temp_downloads'') ''B.mp4'') 7 ''https://instagram.com/reel/B'', True)])"
proof -
  let ?env = "calm_env\<lparr>provider := (\<lambda>i k. if i = 0 then never_found else good_file)\<rparr>"
  let ?c = "''https://instagram.com/reel/A https://instagram.com/reel/B''"
  let ?m = "text_message ?c group_chat"
  let ?tr1 = "[(GetMember, True), (SendChatAction, True),
       (ProviderAttempt ''A'' 1, False), (Sleep 2, True),
       (ProviderAttempt ''A'' 2, False), (Sleep 2, True),
       (ProviderAttempt ''A'' 3, False)]"
  have rm: "reel_matches ?c = [''A'', ''B'']" by code_simp
  have il: "is_link_only ?c = False" by code_simp
  have d: "download_reel (\<lambda>k. never_found) ''A'' tr =
      (Inl (ErrorDownload (Some ''Unexpected error: Fetching Post metadata failed. for A'') 4),
       tr @ [(ProviderAttempt ''A'' 1, False), (Sleep 2, True),
       (ProviderAttempt ''A'' 2, False), (Sleep 2, True),
       (ProviderAttempt ''A'' 3, False)])" for tr
    by (simp add: download_reel_def download_loop.simps[of _ _ 1] download_loop.simps[of _ _ 2]
        download_loop.simps[of _ _ 3] download_loop.simps[of _ _ 4] MAX_RETRIES_def RETRY_DELAY_def
        attempt_def never_found_def)
  have em: "effective_message (as_message ?m) = Some ?m"
    by (simp add: effective_message_def as_message_def)
  have tx: "msg_text ?m = Some ?c" by (simp add: text_message_def)
  have g: "check_bot_permissions ?env (as_message ?m) = (Inr (Some True), [(GetMember, True)])"
    by (simp add: check_bot_permissions_def calm_env_def as_message_def text_message_def
        group_chat_def plain_member_def)
  have t: "truthy (Some True)" by simp
  have i: "0 < length (reel_matches ?c)" by (simp add: rm)
  have p: "for_reel_matches ?env (as_message ?m) ?m (is_link_only ?c) 0 (take 0 (reel_matches ?c))
             [(GetMember, True)] = (None, [(GetMember, True)])" by simp
  have f: "try_block ?env (as_message ?m) ?m (is_link_only ?c) 0 (reel_matches ?c ! 0) [(GetMember, True)] =
      (Some (ErrorDownload (Some ''Unexpected error: Fetching Post metadata failed. for A'') 4), ?tr1)"
    by (simp add: rm try_block_def as_message_def calm_env_def d)
  have s: "set_reaction ?env 0 = None" by (simp add: calm_env_def)
  from failure_isolated[OF em tx g t i p f] s
  have step: "handle_message ?env (as_message ?m) =
        for_reel_matches ?env (as_message ?m) ?m (is_link_only ?c) (Suc 0) (drop (Suc 0) (reel_matches ?c))
          (?tr1 @ [(SetReaction (message_id ?m) THUMBS_DOWN, True)])"
    by simp
  show ?thesis
    unfolding step
    by (simp add: rm il reel_iteration_def try_block_def deliver_def log_sent_def Let_def calm_env_def
        as_message_def text_message_def download_good_file)
qed

subsection \<open>C5\<close>

text \<open>
  \<^bold>\<open>C5\<close> says that \<open>is_link_only\<close> is true iff the trimmed text matches the grammar in full,
  and that any trailing extra character makes it false. A link followed by one space is not
  link-only although its trimmed text matches (first and second conjunct); a link-only
  text stays link-only when the character \<^verbatim>\<open>4\<close> is added at its end (third and fourth).
\<close>

theorem is_link_only_trimmed_counterexample:
  "\<not> is_link_only ''https://instagram.com/reel/ABC123 '' \<and>
   reel_url (trim ''https://instagram.com/reel/ABC123 '') ''ABC123'' \<and>
   is_link_only ''https://instagram.com/reel/ABC123'' \<and>
   is_link_only (''https://instagram.com/reel/ABC123'' @ ''4'')"
proof -
  have a: "\<not> is_link_only ''https://instagram.com/reel/ABC123 ''" by code_simp
  have t: "trim ''https://instagram.com/reel/ABC123 '' = ''https://instagram.com/reel/ABC123''"
    by (simp add: trim_def is_space_def)
  have "is_link_only ''https://instagram.com/reel/ABC123''" by code_simp
  then obtain tok where r: "reel_url ''https://instagram.com/reel/ABC123'' tok"
    and f: "fullmatch INSTAGRAM_REEL_PATTERN ''https://instagram.com/reel/ABC123'' = Some (Some tok)"
    using is_link_only_iff_reel_url fullmatch_reel_url by blast
  have "fullmatch INSTAGRAM_REEL_PATTERN ''https://instagram.com/reel/ABC123'' = Some (Some ''ABC123'')"
    by code_simp
  with f r have b: "reel_url ''https://instagram.com/reel/ABC123'' ''ABC123''" by simp
  have c: "is_link_only ''https://instagram.com/reel/ABC123''" by code_simp
  have d: "is_link_only (''https://instagram.com/reel/ABC123'' @ ''4'')" by code_simp
  from a b c d t show ?thesis by simp
qed

text \<open>
  \<^bold>\<open>C5, amended.\<close> For every message text, \<open>is_link_only\<close> is true iff the text as it was
  received (nothing is trimmed) matches the reel-URL grammar in full. A link-only text
  holds no space, and with any extra character in front it is no longer link-only.
\<close>

theorem is_link_only_untrimmed:
  "(is_link_only text \<longleftrightarrow> (\<exists>tok. reel_url text tok)) \<and>
   (is_link_only text \<longrightarrow> CHR '' '' \<notin> set text \<and> \<not> is_link_only (x # text))"
  using is_link_only_iff_reel_url reel_url_no_space reel_url_no_leading by blast

text \<open>
  An instance: a link with \<^verbatim>\<open>www.\<close> and a final slash is link-only and matches the grammar;
  with a dot in front it is not link-only.
\<close>

theorem is_link_only_untrimmed_witness:
  "is_link_only ''https://www.instagram.com/reel/XYZ/'' \<and>
   (\<exists>tok. reel_url ''https://www.instagram.com/reel/XYZ/'' tok) \<and>
   \<not> is_link_only ''.https://www.instagram.com/reel/XYZ/''"
proof -
  have h: "is_link_only ''https://www.instagram.com/reel/XYZ/''" by code_simp
  from is_link_only_untrimmed[of "''https://www.instagram.com/reel/XYZ/''" "CHR ''.''"] h
  show ?thesis by simp
qed

subsection \<open>C6\<close>

text \<open>
  \<^bold>\<open>C6.\<close> If the attempts 1 and 2 fail and attempt 3 succeeds, \<^verbatim>\<open>download_reel\<close> returns the
  video path \<^verbatim>\<open>TEMP_DIR / f'{shortcode}.mp4'\<close>. The trace holds exactly three attempts; between
  the second and the third there is exactly one suspension of \<open>RETRY_DELAY\<close> (as there is
  between the first and the second); nothing follows the successful attempt.
\<close>

theorem download_reel_third_attempt:
  assumes "attempt (prov 1) shortcode = Inl e1"
    and "attempt (prov 2) shortcode = Inl e2"
    and "attempt (prov 3) shortcode = Inr video_path"
  shows "download_reel prov shortcode tr =
           (Inr video_path,
            tr @ [(ProviderAttempt shortcode 1, False), (Sleep RETRY_DELAY, True),
                  (ProviderAttempt shortcode 2, False), (Sleep RETRY_DELAY, True),
                  (ProviderAttempt shortcode 3, True)]) \<and>
         video_path = Joinpath TEMP_DIR (shortcode @ ''.mp4'')"
proof -
  have "download_reel prov shortcode tr =
        download_loop prov shortcode 2
          (Some (''Unexpected error: '' @ str_exn e1 @ '' for '' @ shortcode))
          (tr @ [(ProviderAttempt shortcode 1, False), (Sleep RETRY_DELAY, True)])"
    unfolding download_reel_def using download_loop_failure[where prov=prov and retry_count=1, OF _ assms(1)] by (simp add: MAX_RETRIES_def)
  also have "\<dots> = download_loop prov shortcode 3
          (Some (''Unexpected error: '' @ str_exn e2 @ '' for '' @ shortcode))
          (tr @ [(ProviderAttempt shortcode 1, False), (Sleep RETRY_DELAY, True),
                 (ProviderAttempt shortcode 2, False), (Sleep RETRY_DELAY, True)])"
    using download_loop_failure[where prov=prov and retry_count=2, OF _ assms(2)] by (simp add: MAX_RETRIES_def)
  also have "\<dots> = (Inr video_path,
            tr @ [(ProviderAttempt shortcode 1, False), (Sleep RETRY_DELAY, True),
                  (ProviderAttempt shortcode 2, False), (Sleep RETRY_DELAY, True),
                  (ProviderAttempt shortcode 3, True)])"
    using download_loop_success[where prov=prov and retry_count=3, OF _ assms(3)] by (simp add: MAX_RETRIES_def)
  finally have "download_reel prov shortcode tr = (Inr video_path,
            tr @ [(ProviderAttempt shortcode 1, False), (Sleep RETRY_DELAY, True),
                  (ProviderAttempt shortcode 2, False), (Sleep RETRY_DELAY, True),
                  (ProviderAttempt shortcode 3, True)])" .
  moreover from assms(3) have "video_path = Joinpath TEMP_DIR (shortcode @ ''.mp4'')"
    by (auto simp: attempt_def split: sum.splits if_splits option.splits)
  ultimately show ?thesis by simp
qed

text \<open>
  An instance: post not found, then an empty file, then a file of 1024 bytes.
\<close>

theorem download_reel_third_attempt_witness:
  "download_reel (\<lambda>k. if k = 3 then good_file else if k = 2 then empty_file else never_found) ''ABC123'' [] =
     (Inr (Joinpath (Path ''temp_downloads'') ''ABC123.mp4''),
      [(ProviderAttempt ''ABC123'' 1, False), (Sleep 2, True),
       (ProviderAttempt ''ABC123'' 2, False), (Sleep 2, True),
       (ProviderAttempt ''ABC123'' 3, True)])"
proof -
  let ?p = "\<lambda>k::int. if k = 3 then good_file else if k = 2 then empty_file else never_found"
  have a: "attempt (?p 1) ''ABC123'' = Inl (Exn OtherException ''Fetching Post metadata failed.'')"
    by (simp add: attempt_def never_found_def)
  have b: "attempt (?p 2) ''ABC123'' = Inl (Exn ValueError MSG_EMPTY_FILE)"
    by (simp add: attempt_def empty_file_def check_file_def)
  have c: "attempt (?p 3) ''ABC123'' = Inr (Joinpath (Path ''temp_downloads'') ''ABC123.mp4'')"
    by (simp add: attempt_def good_file_def check_file_def TEMP_DIR_def)
  from download_reel_third_attempt[OF a b c, of "[]"] show ?thesis
    by (simp add: RETRY_DELAY_def)
qed

subsection \<open>C7\<close>

text \<open>
  \<^bold>\<open>C7\<close> says that a text with N well-formed links and M non-matching substrings yields
  exactly N identifiers. Two well-formed links (first and second conjunct) on two lines,
  with the line feed between them a non-matching substring (third conjunct), yield one
  identifier: the query of the first link runs on to the next space and takes the second
  link with it.
\<close>

theorem reel_matches_swallowed_link_counterexample:
  "reel_url ''https://instagram.com/reel/A/?x=1'' ''A'' \<and>
   reel_url ''https://instagram.com/reel/B'' ''B'' \<and>
   reel_matches [CHR 0x0A] = [] \<and>
   reel_matches (''https://instagram.com/reel/A/?x=1'' @ [CHR 0x0A] @ ''https://instagram.com/reel/B'') = [''A'']"
proof -
  have a: "reel_url ''https://instagram.com/reel/A/?x=1'' ''A''"
    unfolding reel_url_def
    by (rule exI[of _ "''https''"], rule exI[of _ "[]"], rule exI[of _ "[]"], rule exI[of _ "''/?x=1''"],
        rule exI[of _ "[]"]) (simp add: tok_char_def)
  have b: "reel_url ''https://instagram.com/reel/B'' ''B''"
    unfolding reel_url_def
    by (rule exI[of _ "''https''"], rule exI[of _ "[]"], rule exI[of _ "[]"], rule exI[of _ "[]"],
        rule exI[of _ "[]"]) (simp add: tok_char_def)
  have c: "reel_matches [CHR 0x0A] = []" by code_simp
  have d: "reel_matches (''https://instagram.com/reel/A/?x=1'' @ [CHR 0x0A] @ ''https://instagram.com/reel/B'') = [''A'']"
    by code_simp
  from a b c d show ?thesis by simp
qed

text \<open>
  \<^bold>\<open>C7, amended.\<close> For every text made of words joined by single spaces, where each word
  is either a well-formed reel link (\<open>(w, Some tok)\<close>, \<open>tok\<close> its identifier) or a word in which
  the pattern matches nowhere (\<open>(w, None)\<close>): extraction returns exactly the identifiers of
  the link words, in their order from left to right, whatever the number of other words.
  Extraction is a total function of the text; an empty result is a result.
\<close>

theorem reel_matches_space_separated:
  assumes "\<forall>p\<in>set ps. case p of (w, Some tok) \<Rightarrow> reel_url w tok | (w, None) \<Rightarrow> reel_matches w = []"
  shows "reel_matches (join_words (map fst ps)) = [tok. (w, Some tok) \<leftarrow> ps]"
proof -
  have "concat (map reel_matches (map fst ps)) = [tok. (w, Some tok) \<leftarrow> ps]"
    using assms
  proof (induction ps)
    case Nil
    show ?case by simp
  next
    case (Cons p ps)
    obtain w r where p: "p = (w, r)" by (cases p)
    show ?case
    proof (cases r)
      case None
      with Cons p show ?thesis by simp
    next
      case (Some tok)
      with Cons.prems p have "reel_url w tok" by simp
      from reel_matches_link[OF this] Cons Some p show ?thesis by simp
    qed
  qed
  then show ?thesis by (simp add: reel_matches_join)
qed

text \<open>
  An instance: two links among four other words.
\<close>

theorem reel_matches_space_separated_witness:
  "reel_matches ''check this out https://www.instagram.com/reel/XYZ/ and http://instagram.com/reel/A-1''
     = [''XYZ'', ''A-1'']"
proof -
  have a: "reel_url ''https://www.instagram.com/reel/XYZ/'' ''XYZ''"
    unfolding reel_url_def
    by (rule exI[of _ "''https''"], rule exI[of _ "''www.''"], rule exI[of _ "[]"], rule exI[of _ "[]"],
        rule exI[of _ "''/''"]) (simp add: tok_char_def)
  have b: "reel_url ''http://instagram.com/reel/A-1'' ''A-1''"
    unfolding reel_url_def
    by (rule exI[of _ "''http''"], rule exI[of _ "[]"], rule exI[of _ "[]"], rule exI[of _ "[]"],
        rule exI[of _ "[]"]) (simp add: tok_char_def)
  have c: "reel_matches ''check'' = []" "reel_matches ''this'' = []" "reel_matches ''out'' = []"
    "reel_matches ''and'' = []"
    by code_simp+
  have "\<forall>p\<in>set [(''check'', None), (''this'', None), (''out'', None),
          (''https://www.instagram.com/reel/XYZ/'', Some ''XYZ''), (''and'', None),
          (''http://instagram.com/reel/A-1'', Some ''A-1'')].
          case p of (w, Some tok) \<Rightarrow> reel_url w tok | (w, None) \<Rightarrow> reel_matches w = []"
    using a b c by simp
  from reel_matches_space_separated[OF this] show ?thesis by simp
qed

subsection \<open>C8\<close>




subsection \<open>C9\<close>

text \<open>
  \<^bold>\<open>C9.\<close> For every message text on which \<open>is_link_only\<close> is true, the text is one reel URL
  of the grammar with some identifier \<open>tok\<close>, the full match captures \<open>tok\<close>, and extraction
  yields exactly \<open>[tok]\<close>.
\<close>

theorem link_only_single_identifier:
  assumes "is_link_only text"
  shows "\<exists>tok. reel_url text tok \<and> fullmatch INSTAGRAM_REEL_PATTERN text = Some (Some tok) \<and>
           reel_matches text = [tok]"
proof -
  from assms obtain tok where "reel_url text tok" unfolding is_link_only_iff_reel_url by blast
  then show ?thesis using fullmatch_reel_url reel_matches_link by blast
qed

text \<open>
  An instance: a link with \<^verbatim>\<open>www.\<close>, a user segment, a query and a final slash.
\<close>

theorem link_only_single_identifier_witness:
  "is_link_only ''https://www.instagram.com/some.user/reel/Cx9_a-B/?igsh=abc/'' \<and>
   reel_matches ''https://www.instagram.com/some.user/reel/Cx9_a-B/?igsh=abc/'' = [''Cx9_a-B'']"
proof -
  have h: "is_link_only ''https://www.instagram.com/some.user/reel/Cx9_a-B/?igsh=abc/''"
    by code_simp
  have f: "fullmatch INSTAGRAM_REEL_PATTERN ''https://www.instagram.com/some.user/reel/Cx9_a-B/?igsh=abc/''
            = Some (Some ''Cx9_a-B'')"
    by code_simp
  from link_only_single_identifier[OF h] f h show ?thesis by auto
qed

subsection \<open>C10\<close>



end
